theory Spec2Isabelle
  imports Complex_Main
begin

section \<open>The enrichment endpoint of server.js\<close>

text \<open>
  The development embeds the handler of \<^verbatim>\<open>POST /api/enrich\<close> and the function
  \<^verbatim>\<open>enrichCompany\<close> of \<^verbatim>\<open>src/server.js\<close>. Everything the handler obtains from
  outside the file is a field of the environment \<open>env\<close>: the csv-parser stream over the
  uploaded text, the reply of \<^verbatim>\<open>anthropic.messages.create\<close>, the built-in
  \<^verbatim>\<open>JSON.parse\<close> and the clock read by \<^verbatim>\<open>new Date()\<close>.
\<close>

subsection \<open>Numbers\<close>

text \<open>
  A JavaScript Number is an IEEE-754 double. A finite double is a rational, and the
  operations \<^verbatim>\<open>*\<close> and \<^verbatim>\<open>-\<close> are the exact operations followed by rounding to the
  nearest double, ties to the even significand. \<open>round_double\<close> does that rounding for
  53 bits of significand, with the fixed exponent of the subnormal range below
  \<open>2 ^ -1022\<close>. Overflow to Infinity is not represented: the handler multiplies a
  length of at most 50 by 0.15 and by 10.
\<close>

type_synonym number = rat

function bit_length :: "int \<Rightarrow> nat" where
  "bit_length n = (if n \<le> 0 then 0 else Suc (bit_length (n div 2)))"
  by pat_completeness auto
termination
  by (relation "measure nat") auto

declare bit_length.simps [simp del]

definition pow2 :: "int \<Rightarrow> rat" where
  "pow2 e = (if 0 \<le> e then 2 ^ nat e else 1 / 2 ^ nat (- e))"

definition ilog2 :: "rat \<Rightarrow> int" where
  \<comment> \<open>for \<open>0 < x\<close>: the \<open>e\<close> with \<open>2 ^ e \<le> x < 2 ^ (e + 1)\<close>\<close>
  "ilog2 x =
     (let (p, q) = quotient_of x;
          e0 = int (bit_length p) - int (bit_length q)
      in if pow2 e0 \<le> x then e0 else e0 - 1)"

definition round_half_even :: "rat \<Rightarrow> int" where
  "round_half_even q =
     (let f = \<lfloor>q\<rfloor>; r = q - of_int f
      in if r < 1 / 2 then f
         else if 1 / 2 < r then f + 1
         else if even f then f else f + 1)"

definition round_double :: "rat \<Rightarrow> number" where
  "round_double x =
     (if x = 0 then 0
      else let u = pow2 (max (ilog2 \<bar>x\<bar>) (- 1022) - 52)
           in sgn x * of_int (round_half_even (\<bar>x\<bar> / u)) * u)"

definition js_mul :: "number \<Rightarrow> number \<Rightarrow> number" where
  "js_mul a b = round_double (a * b)"

definition js_sub :: "number \<Rightarrow> number \<Rightarrow> number" where
  "js_sub a b = round_double (a - b)"

definition lit_0_15 :: number where
  \<comment> \<open>the Number that the literal \<^verbatim>\<open>0.15\<close> denotes\<close>
  "lit_0_15 = round_double (15 / 100)"

definition lit_10 :: number where
  "lit_10 = round_double 10"

definition js_length :: "'a list \<Rightarrow> number" where
  \<comment> \<open>\<^verbatim>\<open>results.length\<close>: an array length is below \<open>2 ^ 32\<close>, so it is a Number exactly\<close>
  "js_length xs = of_nat (length xs)"

subsection \<open>Values, rows and the environment\<close>

text \<open>
  \<open>json\<close> is a value as \<^verbatim>\<open>JSON.parse\<close> returns it; an object is the list of its own
  properties in enumeration order. A \<open>row\<close> is the object csv-parser emits for one
  line: its own properties in enumeration order, every value a string. The names of
  the properties of an object are distinct. An object built by a spread is read
  through its properties only, so it is a map from property names to values.
\<close>

datatype json =
  JNull | JBool bool | JNum number | JStr string | JArr "json list" | JObj "(string \<times> json) list"

type_synonym row = "(string \<times> string) list"

type_synonym fields = "string \<rightharpoonup> json"

record company =
  name :: string
  originalRow :: row

text \<open>
  The events of the csv-parser stream that the promise of the handler listens to:
  \<^verbatim>\<open>'data'\<close> with a row, then \<^verbatim>\<open>'end'\<close> or \<^verbatim>\<open>'error'\<close>.
\<close>

datatype csv_stream = Data row csv_stream | End | Error

text \<open>
  The reply of \<^verbatim>\<open>anthropic.messages.create\<close>: a message holds content blocks, and
  only a text block has the property \<^verbatim>\<open>text\<close>.
\<close>

record block =
  block_text :: "string option"

record message =
  content :: "block list"

datatype enrich_error = ServiceError | TypeError | NoJsonFound | MalformedJson

text \<open>
  \<open>messages_create env i p\<close> is the reply to the \<open>i\<close>-th call of the request, sent with
  the prompt \<open>p\<close> (\<open>None\<close> when the call rejects); \<open>new_Date env i\<close> is the time
  value of the Date that \<^verbatim>\<open>new Date()\<close> creates in the \<open>i\<close>-th iteration of the loop;
  \<open>JSON_parse env t\<close> is \<open>None\<close> when \<^verbatim>\<open>JSON.parse\<close> throws on \<open>t\<close>.
\<close>

record env =
  csv :: "string \<Rightarrow> csv_stream"
  messages_create :: "nat \<Rightarrow> string \<Rightarrow> message option"
  JSON_parse :: "string \<Rightarrow> json option"
  new_Date :: "nat \<Rightarrow> int"

subsection \<open>The row extractor\<close>

text \<open>
  A property read is \<open>None\<close> for \<^verbatim>\<open>undefined\<close>. A string is truthy when it is not
  empty, \<^verbatim>\<open>undefined\<close> is falsy, and \<^verbatim>\<open>a || b\<close> is \<open>a\<close> when \<open>a\<close> is truthy
  and \<open>b\<close> otherwise.
\<close>

definition get_prop :: "row \<Rightarrow> string \<Rightarrow> string option" where
  "get_prop r k = map_of r k"

definition first_value :: "row \<Rightarrow> string option" where
  \<comment> \<open>\<^verbatim>\<open>Object.values(row)[0]\<close>\<close>
  "first_value r = (case map snd r of [] \<Rightarrow> None | v # _ \<Rightarrow> Some v)"

fun truthy :: "string option \<Rightarrow> bool" where
  "truthy None = False"
| "truthy (Some s) = (s \<noteq> [])"

definition js_or :: "string option \<Rightarrow> string option \<Rightarrow> string option" where
  "js_or a b = (if truthy a then a else b)"

definition companyName :: "row \<Rightarrow> string option" where
  "companyName r =
     js_or (js_or (js_or (js_or (get_prop r ''company'') (get_prop r ''Company''))
                         (get_prop r ''business_name''))
                  (get_prop r ''Company Name''))
           (first_value r)"

definition on_data :: "row \<Rightarrow> company list \<Rightarrow> company list" where
  "on_data r companies =
     (case companyName r of
        None \<Rightarrow> companies
      | Some n \<Rightarrow> if n \<noteq> [] then companies @ [\<lparr>name = n, originalRow = r\<rparr>] else companies)"

text \<open>
  The promise around the stream: \<open>Inr\<close> the companies collected when the stream ends,
  \<open>Inl ()\<close> when it rejects.
\<close>

fun parse_csv :: "csv_stream \<Rightarrow> company list \<Rightarrow> unit + company list" where
  "parse_csv (Data r s) companies = parse_csv s (on_data r companies)"
| "parse_csv End companies = Inr companies"
| "parse_csv Error companies = Inl ()"

subsection \<open>The enrichment client\<close>

definition prompt :: "string \<Rightarrow> string" where
  "prompt n =
     ''Research \"'' @ n @ ''\" and return ONLY a JSON object with:\<newline>'' @
     ''{\<newline>'' @
     ''  \"industry\": \"primary industry\",\<newline>'' @
     ''  \"employee_range\": \"estimated count like 50-200\",\<newline>'' @
     ''  \"revenue_range\": \"estimated annual revenue\",\<newline>'' @
     ''  \"headquarters\": \"city, country\",\<newline>'' @
     ''  \"founded_year\": \"year or null\",\<newline>'' @
     ''  \"tech_stack\": [\"technology1\", \"technology2\", \"technology3\"],\<newline>'' @
     ''  \"pain_points\": [\"challenge1\", \"challenge2\"],\<newline>'' @
     ''  \"decision_maker\": \"typical buyer title\",\<newline>'' @
     ''  \"linkedin_url\": \"best guess at company linkedin\",\<newline>'' @
     ''  \"ideal_pitch\": \"30 word pitch for selling to them\",\<newline>'' @
     ''  \"buying_signals\": [\"signal1\", \"signal2\"]\<newline>'' @
     ''}\<newline>'' @
     ''\<newline>'' @
     ''Be specific and actionable. No markdown, just JSON.''"

text \<open>
  The regular expression \<^verbatim>\<open>/\{[\s\S]*\}/\<close> as a backtracking matcher.
  \<open>star_close\<close> matches \<^verbatim>\<open>[\s\S]*\}\<close> at the head of its argument: the star takes the
  next character first and gives it back only when the rest cannot match.
  \<open>match_here\<close> matches the whole pattern at the head, \<open>regex_match\<close> tries the start
  positions from left to right and returns the matched text
  (\<^verbatim>\<open>jsonMatch[0]\<close>), \<open>None\<close> for \<^verbatim>\<open>null\<close>.
\<close>

fun star_close :: "string \<Rightarrow> string option" where
  "star_close [] = None"
| "star_close (c # cs) =
     (case star_close cs of
        Some m \<Rightarrow> Some (c # m)
      | None \<Rightarrow> if c = CHR ''}'' then Some [c] else None)"

fun match_here :: "string \<Rightarrow> string option" where
  "match_here [] = None"
| "match_here (c # cs) =
     (if c = CHR ''{'' then map_option ((#) c) (star_close cs) else None)"

fun regex_match :: "string \<Rightarrow> string option" where
  "regex_match [] = None"
| "regex_match (c # cs) =
     (case match_here (c # cs) of Some m \<Rightarrow> Some m | None \<Rightarrow> regex_match cs)"

definition enrichCompany :: "env \<Rightarrow> nat \<Rightarrow> string \<Rightarrow> enrich_error + json" where
  "enrichCompany env i n =
     (case messages_create env i (prompt n) of
        None \<Rightarrow> Inl ServiceError
      | Some msg \<Rightarrow>
          (case content msg of
             [] \<Rightarrow> Inl TypeError
           | b # _ \<Rightarrow>
               (case block_text b of
                  None \<Rightarrow> Inl TypeError
                | Some responseText \<Rightarrow>
                    (case regex_match responseText of
                       None \<Rightarrow> Inl NoJsonFound
                     | Some jsonMatch \<Rightarrow>
                         (case JSON_parse env jsonMatch of
                            None \<Rightarrow> Inl MalformedJson
                          | Some v \<Rightarrow> Inr v)))))"

definition calculateCost :: "json \<Rightarrow> number" where
  "calculateCost d = lit_0_15"

subsection \<open>The clock\<close>

text \<open>
  \<^verbatim>\<open>new Date()\<close> holds the current time as a whole number of milliseconds since
  1970-01-01T00:00:00Z, which is within the range of a Date, so that
  \<^verbatim>\<open>toISOString\<close> does not throw. \<open>toISOString\<close> follows ECMAScript: the day number
  is turned into a date of the proleptic Gregorian calendar, counted from 1 March of
  year 0 in eras of 400 years, centuries, groups of four years and years; the year is
  written with four digits from 0000 to 9999 and with a sign and six digits otherwise.
  \<open>pad w n\<close> writes the last \<open>w\<close> decimal digits of \<open>n\<close>; within the range of a Date
  no number written here has more.
\<close>

definition year_day :: "int \<Rightarrow> int \<times> int" where
  \<comment> \<open>from the day of the era: the year of the era and the day of that year\<close>
  "year_day doe =
     (let c = min (doe div 36524) 3;
          r1 = doe - 36524 * c;
          q = r1 div 1461;
          r2 = r1 mod 1461;
          k = min (r2 div 365) 3
      in (100 * c + 4 * q + k, r2 - 365 * k))"

definition month_day :: "int \<Rightarrow> int \<times> int" where
  \<comment> \<open>from the day of a year that starts on 1 March: the month and the day of the month\<close>
  "month_day doy =
     (let mp = (5 * doy + 2) div 153
      in (if mp < 10 then mp + 3 else mp - 9, doy - (153 * mp + 2) div 5 + 1))"

definition civil_from_days :: "int \<Rightarrow> int \<times> int \<times> int" where
  "civil_from_days days =
     (let z = days + 719468;
          (yoe, doy) = year_day (z mod 146097);
          (m, d) = month_day doy
      in (400 * (z div 146097) + yoe + (if m \<le> 2 then 1 else 0), m, d))"

definition digit_char :: "int \<Rightarrow> char" where
  "digit_char d = ''0123456789'' ! nat d"

fun pad :: "nat \<Rightarrow> int \<Rightarrow> string" where
  "pad w n = (if w = 0 then [] else pad (w - 1) (n div 10) @ [digit_char (n mod 10)])"

declare pad.simps [simp del]

definition year_text :: "int \<Rightarrow> string" where
  "year_text y =
     (if 0 \<le> y \<and> y \<le> 9999 then pad 4 y
      else (if y < 0 then ''-'' else ''+'') @ pad 6 \<bar>y\<bar>)"

definition toISOString :: "int \<Rightarrow> string" where
  "toISOString t =
     (let (y, m, d) = civil_from_days (t div 86400000);
          ms = t mod 86400000
      in year_text y @ ''-'' @ pad 2 m @ ''-'' @ pad 2 d @ ''T'' @
         pad 2 (ms div 3600000) @ '':'' @ pad 2 (ms div 60000 mod 60) @ '':'' @
         pad 2 (ms div 1000 mod 60) @ ''.'' @ pad 3 (ms mod 1000) @ ''Z'')"

subsection \<open>The batch loop and the handler\<close>

text \<open>
  An object spread copies the own properties of its source into the object under
  construction, one after the other, a later property replacing an earlier one of the
  same name. \<open>spread_props\<close> lists the own properties of a value: those of an object, the
  indices of an array or of a string, none for the other values.
\<close>

fun show_nat :: "nat \<Rightarrow> string" where
  "show_nat n =
     (if n < 10 then [''0123456789'' ! n]
      else show_nat (n div 10) @ [''0123456789'' ! (n mod 10)])"

declare show_nat.simps [simp del]

fun spread_props :: "json \<Rightarrow> (string \<times> json) list" where
  "spread_props (JObj kvs) = kvs"
| "spread_props (JArr xs) = zip (map show_nat [0..<length xs]) xs"
| "spread_props (JStr s) = zip (map show_nat [0..<length s]) (map (\<lambda>c. JStr [c]) s)"
| "spread_props JNull = []"
| "spread_props (JBool b) = []"
| "spread_props (JNum x) = []"

definition row_props :: "row \<Rightarrow> (string \<times> json) list" where
  "row_props r = map (\<lambda>(k, v). (k, JStr v)) r"

definition spread :: "fields \<Rightarrow> (string \<times> json) list \<Rightarrow> fields" where
  "spread obj props = fold (\<lambda>(k, v) m. m(k \<mapsto> v)) props obj"

definition success_row :: "env \<Rightarrow> nat \<Rightarrow> company \<Rightarrow> json \<Rightarrow> fields" where
  "success_row env i c enrichedData =
     spread (spread (spread Map.empty (row_props (originalRow c))) (spread_props enrichedData))
       [(''enrichment_cost'', JNum (calculateCost enrichedData)),
        (''enriched_at'', JStr (toISOString (new_Date env i)))]"

definition failure_row :: "company \<Rightarrow> fields" where
  "failure_row c =
     spread (spread Map.empty (row_props (originalRow c)))
       [(''error'', JStr ''Enrichment failed'')]"

definition result_row :: "env \<Rightarrow> nat \<Rightarrow> company \<Rightarrow> fields" where
  "result_row env i c =
     (case enrichCompany env i (name c) of
        Inr enrichedData \<Rightarrow> success_row env i c enrichedData
      | Inl err \<Rightarrow> failure_row c)"

text \<open>
  The \<^verbatim>\<open>for\<close> loop: \<open>i\<close> counts the iterations, each of which calls the service
  once, and \<open>results\<close> is the array built so far.
\<close>

fun enrich_loop :: "env \<Rightarrow> nat \<Rightarrow> company list \<Rightarrow> fields list \<Rightarrow> fields list" where
  "enrich_loop env i [] results = results"
| "enrich_loop env i (c # cs) results =
     enrich_loop env (Suc i) cs (results @ [result_row env i c])"

record enrich_response =
  success :: bool
  total_processed :: number
  estimated_cost :: number
  retail_value :: number
  margin :: number
  data :: "fields list"

datatype response_body = EnrichBody enrich_response | ErrorBody string

record response =
  status :: nat
  body :: response_body

text \<open>
  \<open>req_file req\<close> is \<^verbatim>\<open>req.file.buffer.toString()\<close>, \<open>None\<close> when the request carries no
  file (reading \<^verbatim>\<open>buffer\<close> then throws inside the outer \<^verbatim>\<open>try\<close>).
\<close>

record request =
  req_file :: "string option"

definition processing_failed :: response where
  "processing_failed = \<lparr>status = 500, body = ErrorBody ''Processing failed''\<rparr>"

definition enrich_ok :: "fields list \<Rightarrow> response" where
  "enrich_ok results =
     \<lparr>status = 200,
      body = EnrichBody
        \<lparr>success = True,
         total_processed = js_length results,
         estimated_cost = js_mul (js_length results) lit_0_15,
         retail_value = js_mul (js_length results) lit_10,
         margin = js_sub (js_mul (js_length results) lit_10) (js_mul (js_length results) lit_0_15),
         data = results\<rparr>\<rparr>"

definition handler :: "env \<Rightarrow> request \<Rightarrow> response" where
  "handler env req =
     (case req_file req of
        None \<Rightarrow> processing_failed
      | Some buffer \<Rightarrow>
          (case parse_csv (csv env buffer) [] of
             Inl u \<Rightarrow> processing_failed
           | Inr companies \<Rightarrow> enrich_ok (enrich_loop env 0 (take 50 companies) [])))"

subsection \<open>Notions of the specification\<close>

text \<open>
  The rows a stream emits before it stops, whether it stops with \<^verbatim>\<open>'end'\<close> or with
  \<^verbatim>\<open>'error'\<close>, when a row has a resolvable name, and the companies a list of rows
  gives.
\<close>

fun stream_rows :: "csv_stream \<Rightarrow> row list" where
  "stream_rows (Data r s) = r # stream_rows s"
| "stream_rows End = []"
| "stream_rows Error = []"

fun ended :: "csv_stream \<Rightarrow> bool" where
  "ended (Data r s) = ended s"
| "ended End = True"
| "ended Error = False"

fun errored :: "csv_stream \<Rightarrow> bool" where
  "errored (Data r s) = errored s"
| "errored End = False"
| "errored Error = True"

definition resolvable :: "row \<Rightarrow> bool" where
  "resolvable r = truthy (companyName r)"

definition companies_of :: "row list \<Rightarrow> company list" where
  "companies_of rows =
     map (\<lambda>r. \<lparr>name = the (companyName r), originalRow = r\<rparr>) (filter resolvable rows)"

definition response_data :: "response \<Rightarrow> fields list" where
  \<comment> \<open>the \<^verbatim>\<open>data\<close> of a response, none in the error response\<close>
  "response_data r = (case body r of EnrichBody b \<Rightarrow> data b | ErrorBody e \<Rightarrow> [])"

definition row_fields :: "row \<Rightarrow> fields" where
  "row_fields r = spread Map.empty (row_props r)"

definition json_fields :: "json \<Rightarrow> fields" where
  "json_fields v = spread Map.empty (spread_props v)"

text \<open>
  The name of a row in the words of the specification: the value under the first
  alias, in the order \<^verbatim>\<open>company\<close>, \<^verbatim>\<open>Company\<close>, \<^verbatim>\<open>business_name\<close>,
  \<^verbatim>\<open>Company Name\<close>, that holds a non-empty value, and the first value of the row when
  no alias does.
\<close>

definition aliases :: "string list" where
  "aliases = [''company'', ''Company'', ''business_name'', ''Company Name'']"

definition name_by_aliases :: "string list \<Rightarrow> row \<Rightarrow> string option" where
  "name_by_aliases as r =
     (case filter (\<lambda>k. truthy (get_prop r k)) as of
        k # _ \<Rightarrow> get_prop r k
      | [] \<Rightarrow> first_value r)"

text \<open>
  The extraction in the words of the specification: the text from the first
  \<^verbatim>\<open>{\<close> to the last \<^verbatim>\<open>}\<close>. \<open>from_first_open\<close> drops what precedes the first
  \<^verbatim>\<open>{\<close>, \<open>upto_last_close\<close> drops what follows the last \<^verbatim>\<open>}\<close>, and there is no such
  text when nothing is left.
\<close>

definition from_first_open :: "string \<Rightarrow> string" where
  "from_first_open t = dropWhile (\<lambda>c. c \<noteq> CHR ''{'') t"

definition upto_last_close :: "string \<Rightarrow> string" where
  "upto_last_close t = rev (dropWhile (\<lambda>c. c \<noteq> CHR ''}'') (rev t))"

definition first_to_last_brace :: "string \<Rightarrow> string option" where
  "first_to_last_brace t =
     (let m = upto_last_close (from_first_open t) in if m = [] then None else Some m)"

text \<open>
  An ISO-8601 timestamp in UTC, read character by character: a year of four digits,
  or of a sign and six digits, then \<^verbatim>\<open>-MM-DDTHH:mm:ss.sssZ\<close> with the month from 01 to
  12, the day from 01 to 31, the hour up to 23, the minute and the second up to 59.
\<close>

definition is_digit :: "char \<Rightarrow> bool" where
  "is_digit c = (c \<in> set ''0123456789'')"

definition digit_value :: "char \<Rightarrow> nat" where
  "digit_value c = of_char c - 48"

definition two_digits :: "char \<Rightarrow> char \<Rightarrow> nat \<Rightarrow> nat \<Rightarrow> bool" where
  "two_digits a b lo hi =
     (is_digit a \<and> is_digit b \<and>
      lo \<le> 10 * digit_value a + digit_value b \<and> 10 * digit_value a + digit_value b \<le> hi)"

definition iso_year :: "string \<Rightarrow> bool" where
  "iso_year u =
     (case u of
        [a, b, c, d] \<Rightarrow> list_all is_digit [a, b, c, d]
      | [s, a, b, c, d, e, f] \<Rightarrow>
          (s = CHR ''+'' \<or> s = CHR ''-'') \<and> list_all is_digit [a, b, c, d, e, f]
      | _ \<Rightarrow> False)"

definition iso_date_time :: "string \<Rightarrow> bool" where
  "iso_date_time u =
     (case u of
        [c0, m1, m2, c3, d1, d2, c6, h1, h2, c9, n1, n2, c12, s1, s2, c15, f1, f2, f3, c19] \<Rightarrow>
          c0 = CHR ''-'' \<and> two_digits m1 m2 1 12 \<and>
          c3 = CHR ''-'' \<and> two_digits d1 d2 1 31 \<and>
          c6 = CHR ''T'' \<and> two_digits h1 h2 0 23 \<and>
          c9 = CHR '':'' \<and> two_digits n1 n2 0 59 \<and>
          c12 = CHR '':'' \<and> two_digits s1 s2 0 59 \<and>
          c15 = CHR ''.'' \<and> list_all is_digit [f1, f2, f3] \<and>
          c19 = CHR ''Z''
      | _ \<Rightarrow> False)"

definition iso8601 :: "string \<Rightarrow> bool" where
  "iso8601 s = (iso_year (take (length s - 20) s) \<and> iso_date_time (drop (length s - 20) s))"

text \<open>
  A table of plain text, without quotes, is rectangular when each of its lines has as
  many cells as its first line, the header.
\<close>

fun split_at :: "char \<Rightarrow> string \<Rightarrow> string list" where
  "split_at c [] = [[]]"
| "split_at c (x # xs) =
     (if x = c then [] # split_at c xs
      else (case split_at c xs of [] \<Rightarrow> [[x]] | l # ls \<Rightarrow> (x # l) # ls))"

definition table_lines :: "string \<Rightarrow> string list" where
  "table_lines t = filter (\<lambda>l. l \<noteq> []) (split_at CHR ''\<newline>'' t)"

definition rectangular :: "string \<Rightarrow> bool" where
  "rectangular t =
     (case table_lines t of
        [] \<Rightarrow> True
      | h # ls \<Rightarrow> list_all (\<lambda>l. length (split_at CHR '','' l) = length (split_at CHR '','' h)) ls)"

subsection \<open>Sample requests\<close>

text \<open>
  Concrete environments on which the theorems are evaluated. The service answers
  every call with a sentence around a JSON object, except the third call of a request,
  which it answers without any brace, the fourth, which it answers with another
  object, the sixth, which it answers with an object that is not JSON, and the
  seventh, which it rejects. \<open>sample_parse\<close> agrees with \<^verbatim>\<open>JSON.parse\<close> on the texts
  the samples extract. The clock advances by a second and a half in each iteration.
\<close>

definition stream_of :: "row list \<Rightarrow> csv_stream" where
  "stream_of rows = foldr Data rows End"

definition sample_text :: string where
  "sample_text = ''Here is the profile: {\"industry\":\"Tech\"} Hope this helps.''"

definition retail_text :: string where
  "retail_text =
     ''{\"industry\":\"Retail\",\"headquarters\":\"Oslo, Norway\",\"founded_year\":null}''"

definition sample_parse :: "string \<Rightarrow> json option" where
  "sample_parse t =
     (if t = ''{\"industry\":\"Tech\"}'' then Some (JObj [(''industry'', JStr ''Tech'')])
      else if t = retail_text
        then Some (JObj [(''industry'', JStr ''Retail''),
                         (''headquarters'', JStr ''Oslo, Norway''),
                         (''founded_year'', JNull)])
      else None)"

definition text_message :: "string \<Rightarrow> message" where
  "text_message t = \<lparr>content = [\<lparr>block_text = Some t\<rparr>]\<rparr>"

definition sample_create :: "nat \<Rightarrow> string \<Rightarrow> message option" where
  "sample_create i p =
     (if i = 2 then Some (text_message ''Sorry, I cannot research that.'')
      else if i = 3 then Some (text_message retail_text)
      else if i = 5 then Some (text_message ''Result: {industry: Tech}'')
      else if i = 6 then None
      else Some (text_message sample_text))"

definition sample_env :: "csv_stream \<Rightarrow> env" where
  "sample_env s =
     \<lparr>csv = (\<lambda>buffer. s), messages_create = sample_create, JSON_parse = sample_parse,
      new_Date = (\<lambda>i. 1735689600000 + 1500 * int i)\<rparr>"

definition sample_request :: request where
  "sample_request = \<lparr>req_file = Some ''uploaded text''\<rparr>"

definition named_row :: "string \<Rightarrow> row" where
  "named_row n = [(''company'', n), (''industry'', ''unknown'')]"

definition five_rows :: "row list" where
  "five_rows = map named_row [''Acme'', ''Bolt'', ''Cyan'', ''Dune'', ''Echo'']"

definition three_rows :: "row list" where
  "three_rows = map named_row [''Acme'', ''Bolt'', ''Cyan'']"

definition sixty_rows :: "row list" where
  "sixty_rows = replicate 60 (named_row ''Acme'')"

definition nameless_rows :: "row list" where
  "nameless_rows = [[(''company'', ''''), (''id'', ''7'')], []]"

text \<open>
  A stream that emits \<^verbatim>\<open>'error'\<close> after two rows. It is not the stream of an uploaded
  text: \<^verbatim>\<open>csv()\<close> with its default options emits \<^verbatim>\<open>'error'\<close> for no text.
\<close>

definition broken_stream :: csv_stream where
  "broken_stream = Data (named_row ''Acme'') (Data (named_row ''Bolt'') Error)"

definition mixed_rows :: "row list" where
  "mixed_rows =
     [[(''id'', ''1''), (''Company'', ''Bolt''), (''company'', ''Acme'')],
      [(''id'', ''2''), (''Company Name'', ''Dune''), (''business_name'', ''Cyan'')],
      [(''company'', ''''), (''id'', ''3'')],
      [(''id'', ''4''), (''company'', '''')],
      []]"

text \<open>
  An upload that is not rectangular: its second line has one cell under a header of
  two. csv-parser, called as \<^verbatim>\<open>csv()\<close> with its default options (\<^verbatim>\<open>strict\<close> off),
  emits that line as a row with the one property \<^verbatim>\<open>company\<close> and ends without
  \<^verbatim>\<open>'error'\<close>. \<open>upload_csv\<close> is that stream for that text.
\<close>

definition ragged_upload :: string where
  "ragged_upload = ''company,industry\<newline>Acme\<newline>''"

definition upload_csv :: "string \<Rightarrow> csv_stream" where
  "upload_csv t = (if t = ragged_upload then Data [(''company'', ''Acme'')] End else End)"

definition upload_env :: env where
  "upload_env =
     \<lparr>csv = upload_csv, messages_create = sample_create, JSON_parse = sample_parse,
      new_Date = (\<lambda>i. 1735689600000 + 1500 * int i)\<rparr>"

definition upload_request :: request where
  "upload_request = \<lparr>req_file = Some ragged_upload\<rparr>"

section \<open>Properties\<close>

subsection \<open>Rounding\<close>

text \<open>
  \<open>ilog2\<close> is the binary exponent of a positive rational, and \<open>round_double\<close> moves
  its argument by at most half a unit in the last place.
\<close>

lemma pow2_powi: "pow2 e = 2 powi e"
  unfolding pow2_def power_int_def by (simp add: power_one_over [symmetric])

lemma bit_length_bounds:
  "0 < n \<Longrightarrow> 2 ^ (bit_length n - 1) \<le> n \<and> n < 2 ^ bit_length n"
proof (induction n rule: bit_length.induct)
  case (1 n)
  show ?case
  proof (cases "n div 2 = 0")
    case True
    with "1.prems" have "n = 1"
      by presburger
    then show ?thesis
      by (simp add: bit_length.simps [of 1] bit_length.simps [of 0])
  next
    case False
    with "1.prems" have pos: "0 < n div 2"
      by presburger
    with "1.IH" "1.prems" have ih: "2 ^ (bit_length (n div 2) - 1) \<le> n div 2"
      "n div 2 < 2 ^ bit_length (n div 2)"
      by simp_all
    from pos have "bit_length (n div 2) \<noteq> 0"
      by (simp add: bit_length.simps [of "n div 2"])
    then obtain k where k: "bit_length (n div 2) = Suc k"
      by (cases "bit_length (n div 2)") auto
    have bl: "bit_length n = Suc (Suc k)"
      using "1.prems" k by (simp add: bit_length.simps [of n])
    from ih k have "2 * 2 ^ k \<le> 2 * (n div 2)" and "2 * (n div 2) + 2 \<le> 2 * 2 ^ Suc k"
      by simp_all
    then show ?thesis
      unfolding bl by (simp add: algebra_simps) presburger
  qed
qed

lemma ilog2_bounds:
  assumes "0 < x"
  shows "pow2 (ilog2 x) \<le> x \<and> x < pow2 (ilog2 x + 1)"
proof -
  obtain p q where pq: "quotient_of x = (p, q)"
    by (cases "quotient_of x")
  then have q: "0 < q" and x: "x = of_int p / of_int q"
    by (simp_all add: quotient_of_denom_pos quotient_of_div)
  with assms have p: "0 < p"
    by (simp add: zero_less_divide_iff)
  define bp where "bp = bit_length p"
  define bq where "bq = bit_length q"
  define e0 where "e0 = int bp - int bq"
  from bit_length_bounds [OF p] bit_length_bounds [OF q]
  have pb: "2 ^ (bp - 1) \<le> p" "p < 2 ^ bp" and qb: "2 ^ (bq - 1) \<le> q" "q < 2 ^ bq"
    by (simp_all add: bp_def bq_def)
  from p pb(2) have bp: "0 < bp"
    by (cases bp) auto
  from q qb(2) have bq: "0 < bq"
    by (cases bq) auto
  have il: "ilog2 x = (if pow2 e0 \<le> x then e0 else e0 - 1)"
    by (simp add: ilog2_def pq e0_def bp_def bq_def)
  have "rat_of_int p < 2 ^ bp" and "(2::rat) ^ (bq - 1) \<le> rat_of_int q"
    using pb(2) qb(1) by (metis of_int_less_iff of_int_numeral of_int_power, metis of_int_le_iff of_int_numeral of_int_power)
  then have "x < 2 ^ bp / 2 ^ (bq - 1)"
    unfolding x using p q by (simp add: frac_less)
  also have "\<dots> = 2 powi (int bp - int (bq - 1))"
    by (simp add: power_int_diff)
  also have "int bp - int (bq - 1) = e0 + 1"
    using bq by (simp add: e0_def)
  finally have up: "x < pow2 (e0 + 1)"
    by (simp add: pow2_powi)
  have "(2::rat) ^ (bp - 1) \<le> rat_of_int p" and "rat_of_int q < 2 ^ bq"
    using pb(1) qb(2) by (metis of_int_le_iff of_int_numeral of_int_power, metis of_int_less_iff of_int_numeral of_int_power)
  then have "2 ^ (bp - 1) / 2 ^ bq < x"
    unfolding x using p q by (simp add: frac_less2)
  moreover have "(2::rat) ^ (bp - 1) / 2 ^ bq = 2 powi (int (bp - 1) - int bq)"
    by (simp add: power_int_diff)
  moreover have "int (bp - 1) - int bq = e0 - 1"
    using bp by (simp add: e0_def)
  ultimately have lo: "pow2 (e0 - 1) < x"
    by (simp add: pow2_powi)
  show ?thesis
    using up lo by (auto simp: il)
qed

lemma round_half_even_near: "\<bar>q - of_int (round_half_even q)\<bar> \<le> 1 / 2"
  unfolding round_half_even_def Let_def
  by (auto simp: abs_if) linarith+


lemma pow2_pos: "0 < pow2 e"
  by (simp add: pow2_powi)

lemma round_double_near:
  "\<bar>round_double x - x\<bar> \<le> pow2 (max (ilog2 \<bar>x\<bar>) (- 1022) - 52) / 2"
proof (cases "x = 0")
  case True
  then show ?thesis
    using pow2_pos [of "max (ilog2 \<bar>x\<bar>) (- 1022) - 52"] by (simp add: round_double_def)
next
  case False
  define u where "u = pow2 (max (ilog2 \<bar>x\<bar>) (- 1022) - 52)"
  define n where "n = round_half_even (\<bar>x\<bar> / u)"
  have u: "0 < u"
    by (simp add: u_def pow2_pos)
  have r: "round_double x = sgn x * of_int n * u"
    using False by (simp add: round_double_def Let_def u_def n_def)
  have "x = sgn x * (\<bar>x\<bar> / u) * u"
    using u by (simp add: mult_sgn_abs)
  then have "round_double x - x = sgn x * (of_int n - \<bar>x\<bar> / u) * u"
    unfolding r by (simp add: algebra_simps)
  then have "\<bar>round_double x - x\<bar> = \<bar>\<bar>x\<bar> / u - of_int n\<bar> * u"
    using False u by (simp add: abs_mult abs_sgn_eq abs_minus_commute)
  also have "\<dots> \<le> (1 / 2) * u"
    using round_half_even_near [of "\<bar>x\<bar> / u"] u
    unfolding n_def by (intro mult_right_mono) simp_all
  finally show ?thesis
    by (simp add: u_def)
qed

subsection \<open>Parsing and the loop\<close>

lemma errored_iff: "errored s = (\<not> ended s)"
  by (induction s) simp_all

lemma on_data_companies_of: "on_data r cs = cs @ companies_of [r]"
  by (cases "companyName r") (simp_all add: on_data_def companies_of_def resolvable_def)

lemma companies_of_Cons: "companies_of (r # rs) = companies_of [r] @ companies_of rs"
  by (simp add: companies_of_def)

lemma parse_csv_eq:
  "parse_csv s cs = (if ended s then Inr (cs @ companies_of (stream_rows s)) else Inl ())"
proof (induction s arbitrary: cs)
  case (Data r s)
  show ?case
    using companies_of_Cons [of r "stream_rows s"]
    by (simp add: Data.IH on_data_companies_of)
next
  case End
  show ?case by (simp add: companies_of_def)
next
  case Error
  show ?case by simp
qed

lemma length_companies_of: "length (companies_of rows) = length (filter resolvable rows)"
  by (simp add: companies_of_def)

lemma enrich_loop_eq:
  "enrich_loop env i cs results =
     results @ map (\<lambda>k. result_row env (i + k) (cs ! k)) [0..<length cs]"
proof (induction cs arbitrary: i results)
  case Nil
  show ?case by simp
next
  case (Cons c cs)
  have "map (\<lambda>k. result_row env (i + k) ((c # cs) ! k)) [0..<length (c # cs)] =
          result_row env i c # map (\<lambda>k. result_row env (Suc i + k) (cs ! k)) [0..<length cs]"
    by (simp add: map_upt_Suc del: upt_Suc)
  then show ?case
    by (simp add: Cons.IH del: upt_Suc)
qed

lemma length_enrich_loop: "length (enrich_loop env i cs results) = length results + length cs"
  by (simp add: enrich_loop_eq)

lemma handler_ended:
  assumes "req_file req = Some buffer" and "ended (csv env buffer)"
  shows "handler env req =
           enrich_ok (enrich_loop env 0 (take 50 (companies_of (stream_rows (csv env buffer)))) [])"
  using assms by (simp add: handler_def parse_csv_eq)

lemma round_double_0: "round_double 0 = 0"
  by (simp add: round_double_def)

subsection \<open>The summary and the parse phase\<close>

text \<open>
  C7. When the upload parses to the end and no row has a resolvable name, the
  response is exactly \<^verbatim>\<open>{ success: true, total_processed: 0, estimated_cost: 0,
  retail_value: 0, margin: 0, data: [] }\<close>, with status 200.
\<close>

theorem C7_no_companies:
  assumes "req_file req = Some buffer"
    and "ended (csv env buffer)"
    and "filter resolvable (stream_rows (csv env buffer)) = []"
  shows "handler env req =
           \<lparr>status = 200,
            body = EnrichBody
              \<lparr>success = True, total_processed = 0, estimated_cost = 0, retail_value = 0,
               margin = 0, data = []\<rparr>\<rparr>"
proof -
  have "companies_of (stream_rows (csv env buffer)) = []"
    using assms(3) by (simp add: companies_of_def)
  then have "handler env req = enrich_ok []"
    using handler_ended [OF assms(1,2)] by simp
  then show ?thesis
    by (simp add: enrich_ok_def js_length_def js_mul_def js_sub_def round_double_0)
qed

theorem C7_no_companies_witness:
  "filter resolvable (stream_rows (stream_of nameless_rows)) = [] \<and>
   handler (sample_env (stream_of nameless_rows)) sample_request =
     \<lparr>status = 200,
      body = EnrichBody
        \<lparr>success = True, total_processed = 0, estimated_cost = 0, retail_value = 0,
         margin = 0, data = []\<rparr>\<rparr>"
proof -
  have f: "req_file sample_request = Some ''uploaded text''"
    by (simp add: sample_request_def)
  have e: "ended (csv (sample_env (stream_of nameless_rows)) ''uploaded text'')"
    by code_simp
  have n: "filter resolvable
             (stream_rows (csv (sample_env (stream_of nameless_rows)) ''uploaded text'')) = []"
    by code_simp
  have "filter resolvable (stream_rows (stream_of nameless_rows)) = []"
    by code_simp
  then show ?thesis
    using C7_no_companies [OF f e n] by simp
qed

lemma handler_enrich_ok:
  assumes "req_file req = Some buffer" and "ended (csv env buffer)"
  shows "handler env req =
           enrich_ok (map (\<lambda>k. result_row env k (companies_of (stream_rows (csv env buffer)) ! k))
                        [0..<min (length (companies_of (stream_rows (csv env buffer)))) 50])"
proof -
  let ?cs = "companies_of (stream_rows (csv env buffer))"
  have "map (\<lambda>k. result_row env (0 + k) (take 50 ?cs ! k)) [0..<length (take 50 ?cs)] =
          map (\<lambda>k. result_row env k (?cs ! k)) [0..<min (length ?cs) 50]"
    by (rule map_cong) simp_all
  then show ?thesis
    using handler_ended [OF assms] by (simp only: enrich_loop_eq append_Nil)
qed

lemma handler_cases:
  "handler env req = processing_failed \<or> (\<exists>results. handler env req = enrich_ok results)"
  by (auto simp: handler_def split: option.splits sum.splits)

lemma lit_0_15_value: "lit_0_15 = 5404319552844595 / 2 ^ 55"
  by code_simp

lemma lit_10_value: "lit_10 = 10"
  by code_simp

text \<open>
  C1. When the upload parses to the end, the response has status 200 and its
  \<^verbatim>\<open>data\<close> has as many entries as there are rows with a resolvable name, at most 50;
  \<^verbatim>\<open>total_processed\<close> is that number. The entries are those of the first 50 companies
  in order: companies after the fiftieth leave no trace in the response.
\<close>

theorem C1_output_length:
  assumes "req_file req = Some buffer" and "ended (csv env buffer)"
  shows "\<exists>b. handler env req = \<lparr>status = 200, body = EnrichBody b\<rparr> \<and>
           length (data b) = min (length (filter resolvable (stream_rows (csv env buffer)))) 50 \<and>
           total_processed b = of_nat (length (data b)) \<and>
           data b =
             map (\<lambda>k. result_row env k (companies_of (stream_rows (csv env buffer)) ! k))
               [0..<min (length (filter resolvable (stream_rows (csv env buffer)))) 50]"
  using handler_enrich_ok [OF assms]
  by (simp add: enrich_ok_def js_length_def length_companies_of)

theorem C1_output_length_witness:
  "ended (stream_of sixty_rows) \<and>
   length (filter resolvable (stream_rows (stream_of sixty_rows))) = 60 \<and>
   (\<exists>b. handler (sample_env (stream_of sixty_rows)) sample_request =
           \<lparr>status = 200, body = EnrichBody b\<rparr> \<and>
         length (data b) = 50 \<and> total_processed b = 50)"
proof -
  have f: "req_file sample_request = Some ''uploaded text''"
    by (simp add: sample_request_def)
  have s: "csv (sample_env (stream_of sixty_rows)) ''uploaded text'' = stream_of sixty_rows"
    by (simp add: sample_env_def)
  have e: "ended (stream_of sixty_rows)"
    by code_simp
  have n: "length (filter resolvable (stream_rows (stream_of sixty_rows))) = 60"
    by code_simp
  from C1_output_length [of sample_request "''uploaded text''" "sample_env (stream_of sixty_rows)"]
  obtain b where
    "handler (sample_env (stream_of sixty_rows)) sample_request =
       \<lparr>status = 200, body = EnrichBody b\<rparr>"
    "length (data b) = 50" "total_processed b = of_nat (length (data b))"
    using f e s n by auto
  then show ?thesis
    using e n by auto
qed

text \<open>
  C2. In every response that carries a summary, \<^verbatim>\<open>total_processed\<close> is the number
  of entries of \<^verbatim>\<open>data\<close>, \<^verbatim>\<open>estimated_cost\<close> is \<^verbatim>\<open>total_processed * 0.15\<close>,
  \<^verbatim>\<open>retail_value\<close> is \<^verbatim>\<open>total_processed * 10\<close> and \<^verbatim>\<open>margin\<close> is
  \<^verbatim>\<open>retail_value - estimated_cost\<close>, the product and the difference being those of
  Numbers, rounded to the nearest double (for three entries the cost is
  0.44999999999999996). An entry of \<^verbatim>\<open>data\<close> counts whether its enrichment
  succeeded or not.
\<close>

theorem C2_summary_fields:
  assumes "body (handler env req) = EnrichBody b"
  shows "total_processed b = of_nat (length (data b)) \<and>
         estimated_cost b = js_mul (total_processed b) lit_0_15 \<and>
         retail_value b = js_mul (total_processed b) lit_10 \<and>
         margin b = js_sub (retail_value b) (estimated_cost b)"
proof -
  from handler_cases [of env req] assms
  obtain results where "handler env req = enrich_ok results"
    by (auto simp: processing_failed_def)
  with assms have "b = \<lparr>success = True,
         total_processed = js_length results,
         estimated_cost = js_mul (js_length results) lit_0_15,
         retail_value = js_mul (js_length results) lit_10,
         margin = js_sub (js_mul (js_length results) lit_10) (js_mul (js_length results) lit_0_15),
         data = results\<rparr>"
    by (simp add: enrich_ok_def)
  then show ?thesis
    by (simp add: js_length_def)
qed

theorem C2_summary_fields_witness:
  "\<exists>b. body (handler (sample_env (stream_of three_rows)) sample_request) = EnrichBody b \<and>
       total_processed b = 3 \<and>
       estimated_cost b = 8106479329266892 / 2 ^ 54 \<and>
       retail_value b = 30 \<and>
       margin b = 8317585561799885 / 2 ^ 48"
proof -
  have c: "js_mul 3 lit_0_15 = 8106479329266892 / 2 ^ 54"
    by code_simp
  have r: "js_mul 3 lit_10 = 30"
    by code_simp
  have m: "js_sub 30 (8106479329266892 / 2 ^ 54) = 8317585561799885 / 2 ^ 48"
    by code_simp
  let ?env = "sample_env (stream_of three_rows)"
  have f: "req_file sample_request = Some ''uploaded text''"
    by (simp add: sample_request_def)
  have e: "ended (csv ?env ''uploaded text'')"
    by code_simp
  have n: "min (length (companies_of (stream_rows (csv ?env ''uploaded text'')))) 50 = 3"
    by code_simp
  obtain results where h: "handler ?env sample_request = enrich_ok results"
    and l: "length results = 3"
    using handler_enrich_ok [OF f e] unfolding n by simp
  define b where "b = \<lparr>success = True,
         total_processed = js_length results,
         estimated_cost = js_mul (js_length results) lit_0_15,
         retail_value = js_mul (js_length results) lit_10,
         margin = js_sub (js_mul (js_length results) lit_10) (js_mul (js_length results) lit_0_15),
         data = results\<rparr>"
  have b: "body (handler ?env sample_request) = EnrichBody b"
    by (simp add: h enrich_ok_def b_def)
  have "length (data b) = 3"
    by (simp add: b_def l)
  with C2_summary_fields [OF b] have tp: "total_processed b = 3"
    and ec: "estimated_cost b = js_mul (total_processed b) lit_0_15"
    and rv: "retail_value b = js_mul (total_processed b) lit_10"
    and mg: "margin b = js_sub (retail_value b) (estimated_cost b)"
    by simp_all
  have ec3: "estimated_cost b = 8106479329266892 / 2 ^ 54"
    unfolding ec tp by (rule c)
  have rv3: "retail_value b = 30"
    unfolding rv tp by (rule r)
  have "margin b = 8317585561799885 / 2 ^ 48"
    unfolding mg rv3 ec3 by (rule m)
  with b tp ec3 rv3 show ?thesis
    by blast
qed

text \<open>
  C8, as amended. When the csv-parser stream of the upload emits \<^verbatim>\<open>'error'\<close>, the
  response is \<^verbatim>\<open>{ error: "Processing failed" }\<close> with status 500, whatever rows the
  stream emitted before: the response carries no \<^verbatim>\<open>data\<close>. When the stream ends
  without \<^verbatim>\<open>'error'\<close>, the response has status 200 and an entry for each of the
  companies of the rows emitted, up to 50, however malformed the uploaded table is.
\<close>

theorem C8_parse_failure:
  assumes "req_file req = Some buffer"
  shows "(errored (csv env buffer) \<longrightarrow>
            handler env req = \<lparr>status = 500, body = ErrorBody ''Processing failed''\<rparr> \<and>
            response_data (handler env req) = []) \<and>
         (ended (csv env buffer) \<longrightarrow>
            status (handler env req) = 200 \<and>
            length (response_data (handler env req)) =
              min (length (filter resolvable (stream_rows (csv env buffer)))) 50)"
proof (intro conjI impI)
  assume "errored (csv env buffer)"
  then have "handler env req = processing_failed"
    using assms by (simp add: handler_def parse_csv_eq errored_iff)
  then show "handler env req = \<lparr>status = 500, body = ErrorBody ''Processing failed''\<rparr>"
    and "response_data (handler env req) = []"
    by (simp_all add: processing_failed_def response_data_def)
next
  assume e: "ended (csv env buffer)"
  show "status (handler env req) = 200"
    using handler_enrich_ok [OF assms e] by (simp add: enrich_ok_def)
  show "length (response_data (handler env req)) =
          min (length (filter resolvable (stream_rows (csv env buffer)))) 50"
    using handler_enrich_ok [OF assms e]
    by (simp add: enrich_ok_def response_data_def length_companies_of)
qed

theorem C8_parse_failure_witness:
  "errored broken_stream \<and> stream_rows broken_stream \<noteq> [] \<and>
   handler (sample_env broken_stream) sample_request =
     \<lparr>status = 500, body = ErrorBody ''Processing failed''\<rparr> \<and>
   ended (upload_csv ragged_upload) \<and>
   status (handler upload_env upload_request) = 200 \<and>
   length (response_data (handler upload_env upload_request)) = 1"
proof -
  have f: "req_file sample_request = Some ''uploaded text''"
    by (simp add: sample_request_def)
  have e: "errored (csv (sample_env broken_stream) ''uploaded text'')"
    by (simp add: sample_env_def broken_stream_def)
  have b: "errored broken_stream" "stream_rows broken_stream \<noteq> []"
    by (simp_all add: broken_stream_def)
  have u: "req_file upload_request = Some ragged_upload"
    by (simp add: upload_request_def)
  have c: "csv upload_env ragged_upload = upload_csv ragged_upload"
    by (simp add: upload_env_def)
  have n: "ended (upload_csv ragged_upload)"
    by (simp add: upload_csv_def)
  have l: "min (length (filter resolvable (stream_rows (upload_csv ragged_upload)))) 50 = 1"
    by code_simp
  show ?thesis
    using C8_parse_failure [OF f, of "sample_env broken_stream"] e b
      C8_parse_failure [OF u, of upload_env] n
    unfolding c l by simp
qed

theorem C8_counterexample:
  "\<not> rectangular ragged_upload \<and>
   req_file upload_request = Some ragged_upload \<and>
   csv upload_env ragged_upload = Data [(''company'', ''Acme'')] End \<and>
   status (handler upload_env upload_request) = 200 \<and>
   map (\<lambda>r. (r ''company'', r ''industry''))
     (response_data (handler upload_env upload_request)) =
     [(Some (JStr ''Acme''), Some (JStr ''Tech''))]"
  by code_simp

subsection \<open>Name resolution\<close>

lemma companyName_aliases: "companyName r = name_by_aliases aliases r"
  by (simp add: companyName_def name_by_aliases_def aliases_def js_or_def)

lemma companies_of_aliases:
  "companies_of rows =
     map (\<lambda>r. \<lparr>name = the (name_by_aliases aliases r), originalRow = r\<rparr>)
       (filter (\<lambda>r. truthy (name_by_aliases aliases r)) rows)"
  by (simp add: companies_of_def resolvable_def [abs_def] companyName_aliases)

lemma filter_removeAll_falsy: "\<not> P a \<Longrightarrow> filter P (removeAll a xs) = filter P xs"
  by (induction xs) auto

text \<open>
  C3. The name of a row is the value under the first of the aliases \<^verbatim>\<open>company\<close>,
  \<^verbatim>\<open>Company\<close>, \<^verbatim>\<open>business_name\<close>, \<^verbatim>\<open>Company Name\<close> that holds a non-empty
  value, and the first value of the row when none does. The companies of an upload
  are its rows with a non-empty name, in order, and only they count toward
  \<^verbatim>\<open>total_processed\<close>.
\<close>

theorem C3_name_resolution:
  assumes "req_file req = Some buffer" and "ended (csv env buffer)"
  shows "(\<forall>r. companyName r = name_by_aliases aliases r) \<and>
         parse_csv (csv env buffer) [] =
           Inr (map (\<lambda>r. \<lparr>name = the (name_by_aliases aliases r), originalRow = r\<rparr>)
                  (filter (\<lambda>r. truthy (name_by_aliases aliases r))
                     (stream_rows (csv env buffer)))) \<and>
         (\<exists>b. body (handler env req) = EnrichBody b \<and>
              total_processed b =
                of_nat (min (length (filter (\<lambda>r. truthy (name_by_aliases aliases r))
                                        (stream_rows (csv env buffer)))) 50))"
proof (intro conjI allI)
  fix r
  show "companyName r = name_by_aliases aliases r"
    by (rule companyName_aliases)
next
  show "parse_csv (csv env buffer) [] =
          Inr (map (\<lambda>r. \<lparr>name = the (name_by_aliases aliases r), originalRow = r\<rparr>)
                 (filter (\<lambda>r. truthy (name_by_aliases aliases r))
                    (stream_rows (csv env buffer))))"
    using assms(2) by (simp add: parse_csv_eq companies_of_aliases)
next
  have "length (companies_of (stream_rows (csv env buffer))) =
          length (filter (\<lambda>r. truthy (name_by_aliases aliases r)) (stream_rows (csv env buffer)))"
    by (simp add: companies_of_aliases)
  then show "\<exists>b. body (handler env req) = EnrichBody b \<and>
               total_processed b =
                 of_nat (min (length (filter (\<lambda>r. truthy (name_by_aliases aliases r))
                                         (stream_rows (csv env buffer)))) 50)"
    using handler_enrich_ok [OF assms] by (simp add: enrich_ok_def js_length_def)
qed

theorem C3_name_resolution_witness:
  "ended (stream_of mixed_rows) \<and>
   map companyName mixed_rows = [Some ''Acme'', Some ''Cyan'', Some [], Some ''4'', None] \<and>
   parse_csv (stream_of mixed_rows) [] =
     Inr [\<lparr>name = ''Acme'', originalRow = mixed_rows ! 0\<rparr>,
          \<lparr>name = ''Cyan'', originalRow = mixed_rows ! 1\<rparr>,
          \<lparr>name = ''4'', originalRow = mixed_rows ! 3\<rparr>] \<and>
   (\<exists>b. body (handler (sample_env (stream_of mixed_rows)) sample_request) = EnrichBody b \<and>
        total_processed b = 3)"
proof -
  let ?env = "sample_env (stream_of mixed_rows)"
  have f: "req_file sample_request = Some ''uploaded text''"
    by (simp add: sample_request_def)
  have s: "csv ?env ''uploaded text'' = stream_of mixed_rows"
    by (simp add: sample_env_def)
  have e: "ended (csv ?env ''uploaded text'')"
    by code_simp
  have n: "map companyName mixed_rows =
             [Some ''Acme'', Some ''Cyan'', Some [], Some ''4'', None]"
    by code_simp
  have p: "map (\<lambda>r. \<lparr>name = the (name_by_aliases aliases r), originalRow = r\<rparr>)
             (filter (\<lambda>r. truthy (name_by_aliases aliases r)) (stream_rows (stream_of mixed_rows))) =
           [\<lparr>name = ''Acme'', originalRow = mixed_rows ! 0\<rparr>,
            \<lparr>name = ''Cyan'', originalRow = mixed_rows ! 1\<rparr>,
            \<lparr>name = ''4'', originalRow = mixed_rows ! 3\<rparr>]"
    by code_simp
  have l: "min (length (filter (\<lambda>r. truthy (name_by_aliases aliases r))
                          (stream_rows (stream_of mixed_rows)))) 50 = 3"
    by code_simp
  have "ended (stream_of mixed_rows)"
    using e by (simp only: s)
  then show ?thesis
    using C3_name_resolution [OF f e] n unfolding s p l by simp
qed

text \<open>
  C9. An alias column that holds the empty string does not stop the resolution: the
  name is the one resolved without that alias, so the next alias or the first value of
  the row is taken. A row whose resolved candidate is the empty string is dropped, as
  a row with no candidate at all is.
\<close>

theorem C9_truthiness:
  "(\<forall>a \<in> set aliases. get_prop r a = Some [] \<longrightarrow>
      companyName r = name_by_aliases (removeAll a aliases) r) \<and>
   (companyName r = Some [] \<or> companyName r = None \<longrightarrow>
      on_data r cs = cs \<and> companies_of [r] = [])"
proof (intro conjI ballI impI)
  fix a
  assume "a \<in> set aliases" and "get_prop r a = Some []"
  then have "\<not> truthy (get_prop r a)"
    by simp
  then have "filter (\<lambda>k. truthy (get_prop r k)) (removeAll a aliases) =
             filter (\<lambda>k. truthy (get_prop r k)) aliases"
    by (rule filter_removeAll_falsy)
  then show "companyName r = name_by_aliases (removeAll a aliases) r"
    by (simp add: companyName_aliases name_by_aliases_def)
next
  assume "companyName r = Some [] \<or> companyName r = None"
  then show "on_data r cs = cs"
    by (auto simp: on_data_def)
next
  assume "companyName r = Some [] \<or> companyName r = None"
  then show "companies_of [r] = []"
    by (auto simp: companies_of_def resolvable_def)
qed

theorem C9_truthiness_witness:
  "get_prop (mixed_rows ! 3) ''company'' = Some [] \<and>
   companyName (mixed_rows ! 3) = Some ''4'' \<and>
   companyName (mixed_rows ! 2) = Some [] \<and>
   on_data (mixed_rows ! 2) [] = [] \<and>
   on_data [] [] = []"
proof -
  have a: "''company'' \<in> set aliases"
    by (simp add: aliases_def)
  have g: "get_prop (mixed_rows ! 3) ''company'' = Some []"
    by code_simp
  have n: "name_by_aliases (removeAll ''company'' aliases) (mixed_rows ! 3) = Some ''4''"
    by code_simp
  have c2: "companyName (mixed_rows ! 2) = Some []"
    by code_simp
  have c4: "companyName [] = None"
    by code_simp
  show ?thesis
    using C9_truthiness [of "mixed_rows ! 3" "[]"] C9_truthiness [of "mixed_rows ! 2" "[]"]
      C9_truthiness [of "[]" "[]"] a g n c2 c4
    by simp
qed

subsection \<open>The extraction of the JSON text\<close>

lemma upto_last_close_Nil_iff: "upto_last_close t = [] \<longleftrightarrow> CHR ''}'' \<notin> set t"
  by (auto simp: upto_last_close_def)

lemma upto_last_close_Cons:
  "upto_last_close (c # cs) =
     (if CHR ''}'' \<in> set cs then c # upto_last_close cs
      else if c = CHR ''}'' then [c] else [])"
  by (auto simp: upto_last_close_def dropWhile_append)

lemma star_close_eq:
  "star_close cs = (if CHR ''}'' \<in> set cs then Some (upto_last_close cs) else None)"
  by (induction cs) (auto simp: upto_last_close_Cons)

lemma from_first_open_Cons:
  "from_first_open (c # cs) = (if c = CHR ''{'' then c # cs else from_first_open cs)"
  by (simp add: from_first_open_def)

lemma close_in_from_first_open: "CHR ''}'' \<in> set (from_first_open t) \<Longrightarrow> CHR ''}'' \<in> set t"
  unfolding from_first_open_def by (rule set_dropWhileD)

lemma regex_match_eq: "regex_match t = first_to_last_brace t"
proof (induction t)
  case Nil
  show ?case
    by (simp add: first_to_last_brace_def from_first_open_def upto_last_close_def)
next
  case (Cons c cs)
  show ?case
  proof (cases "c = CHR ''{''")
    case False
    then show ?thesis
      using Cons.IH by (simp add: first_to_last_brace_def from_first_open_Cons)
  next
    case True
    show ?thesis
    proof (cases "CHR ''}'' \<in> set cs")
      case c: True
      then show ?thesis
        using True
        by (simp add: star_close_eq first_to_last_brace_def from_first_open_Cons
            upto_last_close_Cons)
    next
      case c: False
      then have "upto_last_close (from_first_open cs) = []"
        using close_in_from_first_open [of cs] by (auto simp: upto_last_close_Nil_iff)
      then have "first_to_last_brace cs = None"
        by (simp add: first_to_last_brace_def)
      then show ?thesis
        using True c Cons.IH
        by (simp add: star_close_eq first_to_last_brace_def from_first_open_Cons
            upto_last_close_Cons)
    qed
  qed
qed

lemma first_to_last_brace_span:
  assumes "t = pre @ CHR ''{'' # mid @ CHR ''}'' # post"
    and "CHR ''{'' \<notin> set pre" and "CHR ''}'' \<notin> set post"
  shows "first_to_last_brace t = Some (CHR ''{'' # mid @ [CHR ''}''])"
proof -
  have "\<forall>c \<in> set pre. c \<noteq> CHR ''{''" and "\<forall>c \<in> set (rev post). c \<noteq> CHR ''}''"
    using assms(2,3) by auto
  then have "from_first_open t = CHR ''{'' # mid @ CHR ''}'' # post"
    and "upto_last_close (CHR ''{'' # mid @ CHR ''}'' # post) = CHR ''{'' # mid @ [CHR ''}'']"
    by (simp_all add: assms(1) from_first_open_def upto_last_close_def dropWhile_append)
  then show ?thesis
    by (simp add: first_to_last_brace_def)
qed

lemma first_to_last_brace_None:
  assumes "first_to_last_brace t = None"
  shows "t \<noteq> pre @ CHR ''{'' # mid @ CHR ''}'' # post"
proof
  assume t: "t = pre @ CHR ''{'' # mid @ CHR ''}'' # post"
  have "CHR ''}'' \<in> set (from_first_open t)"
    unfolding t from_first_open_def by (simp add: dropWhile_append)
  then show False
    using assms by (simp add: first_to_last_brace_def upto_last_close_Nil_iff Let_def)
qed

lemma first_to_last_brace_Some:
  assumes "first_to_last_brace t = Some m"
  shows "\<exists>pre mid post. t = pre @ CHR ''{'' # mid @ CHR ''}'' # post \<and>
           CHR ''{'' \<notin> set pre \<and> CHR ''}'' \<notin> set post \<and> m = CHR ''{'' # mid @ [CHR ''}'']"
proof -
  let ?u = "from_first_open t"
  let ?pre = "takeWhile (\<lambda>c. c \<noteq> CHR ''{'') t"
  let ?post = "rev (takeWhile (\<lambda>c. c \<noteq> CHR ''}'') (rev ?u))"
  from assms have m: "m = upto_last_close ?u" and ne: "m \<noteq> []"
    by (auto simp: first_to_last_brace_def Let_def split: if_splits)
  have t: "t = ?pre @ ?u"
    by (simp add: from_first_open_def)
  have "rev ?u = rev ?post @ rev m"
    by (simp add: m upto_last_close_def)
  then have u: "?u = m @ ?post"
    by (metis rev_append rev_rev_ident)
  have pre: "CHR ''{'' \<notin> set ?pre"
    by (auto dest: set_takeWhileD)
  have post: "CHR ''}'' \<notin> set ?post"
    by (auto dest: set_takeWhileD)
  from ne u have "?u \<noteq> []"
    by auto
  then have "hd ?u = CHR ''{''"
    unfolding from_first_open_def using hd_dropWhile [of "\<lambda>c. c \<noteq> CHR ''{''" t] by simp
  with ne u have h: "hd m = CHR ''{''"
    by (metis hd_append2)
  from ne have "rev m \<noteq> []" and "rev m = dropWhile (\<lambda>c. c \<noteq> CHR ''}'') (rev ?u)"
    by (simp_all add: m upto_last_close_def)
  then have "hd (rev m) = CHR ''}''"
    using hd_dropWhile [of "\<lambda>c. c \<noteq> CHR ''}''" "rev ?u"] by simp
  with ne have l: "last m = CHR ''}''"
    by (simp add: hd_rev)
  from ne h obtain m' where m': "m = CHR ''{'' # m'"
    by (cases m) auto
  with l have "m' \<noteq> []"
    by auto
  with l m' obtain mid where "m' = mid @ [CHR ''}'']"
    by (metis append_butlast_last_id last_ConsR)
  with m' have "m = CHR ''{'' # mid @ [CHR ''}'']"
    by simp
  with t u pre post show ?thesis
    by (metis append_Cons append_Nil append_assoc)
qed

text \<open>
  C4. Let \<open>t\<close> be the text of the first block of the reply. When \<open>t\<close> has a
  \<^verbatim>\<open>{\<close> with a \<^verbatim>\<open>}\<close> after it, the text matched is the one from the first \<^verbatim>\<open>{\<close>
  of \<open>t\<close> to its last \<^verbatim>\<open>}\<close>; the client returns what \<^verbatim>\<open>JSON.parse\<close> makes of that
  text, whatever its shape, and fails with MalformedJson when \<^verbatim>\<open>JSON.parse\<close> throws.
  The client fails with NoJsonFound exactly when \<open>t\<close> has no \<^verbatim>\<open>{\<close> with a \<^verbatim>\<open>}\<close>
  after it.
\<close>

theorem C4_extraction:
  assumes "messages_create env i (prompt n) = Some msg"
    and "content msg = b # bs"
    and "block_text b = Some t"
  shows "(\<forall>pre mid post.
            t = pre @ CHR ''{'' # mid @ CHR ''}'' # post \<and>
            CHR ''{'' \<notin> set pre \<and> CHR ''}'' \<notin> set post \<longrightarrow>
            regex_match t = Some (CHR ''{'' # mid @ [CHR ''}'']) \<and>
            enrichCompany env i n =
              (case JSON_parse env (CHR ''{'' # mid @ [CHR ''}'']) of
                 None \<Rightarrow> Inl MalformedJson
               | Some v \<Rightarrow> Inr v)) \<and>
         (enrichCompany env i n = Inl NoJsonFound \<longleftrightarrow>
            (\<forall>pre mid post. t \<noteq> pre @ CHR ''{'' # mid @ CHR ''}'' # post))"
proof (intro conjI allI impI)
  fix pre mid post
  assume "t = pre @ CHR ''{'' # mid @ CHR ''}'' # post \<and>
          CHR ''{'' \<notin> set pre \<and> CHR ''}'' \<notin> set post"
  then have "first_to_last_brace t = Some (CHR ''{'' # mid @ [CHR ''}''])"
    by (simp add: first_to_last_brace_span)
  then show "regex_match t = Some (CHR ''{'' # mid @ [CHR ''}''])"
    by (simp add: regex_match_eq)
  then show "enrichCompany env i n =
               (case JSON_parse env (CHR ''{'' # mid @ [CHR ''}'']) of
                  None \<Rightarrow> Inl MalformedJson
                | Some v \<Rightarrow> Inr v)"
    using assms by (simp add: enrichCompany_def)
next
  show "enrichCompany env i n = Inl NoJsonFound \<longleftrightarrow>
          (\<forall>pre mid post. t \<noteq> pre @ CHR ''{'' # mid @ CHR ''}'' # post)"
  proof (cases "first_to_last_brace t")
    case None
    then have "enrichCompany env i n = Inl NoJsonFound"
      using assms by (simp add: enrichCompany_def regex_match_eq)
    then show ?thesis
      using first_to_last_brace_None [OF None] by simp
  next
    case (Some m)
    then have "enrichCompany env i n \<noteq> Inl NoJsonFound"
      using assms by (simp add: enrichCompany_def regex_match_eq split: option.splits)
    then show ?thesis
      using first_to_last_brace_Some [OF Some] by blast
  qed
qed

theorem C4_extraction_witness:
  "enrichCompany (sample_env End) 0 ''Acme'' = Inr (JObj [(''industry'', JStr ''Tech'')]) \<and>
   enrichCompany (sample_env End) 2 ''Acme'' = Inl NoJsonFound \<and>
   enrichCompany (sample_env End) 5 ''Acme'' = Inl MalformedJson"
proof -
  have c: "content (text_message t) = \<lparr>block_text = Some t\<rparr> # []" for t
    by (simp add: text_message_def)
  have b: "block_text \<lparr>block_text = Some t\<rparr> = Some t" for t :: string
    by simp
  have m0: "messages_create (sample_env End) 0 (prompt ''Acme'') = Some (text_message sample_text)"
    by (simp add: sample_env_def sample_create_def)
  have t0: "sample_text =
      ''Here is the profile: '' @ CHR ''{'' # ''\"industry\":\"Tech\"'' @ CHR ''}'' # '' Hope this helps.'' \<and>
      CHR ''{'' \<notin> set ''Here is the profile: '' \<and> CHR ''}'' \<notin> set '' Hope this helps.''"
    by (simp add: sample_text_def)
  have p0: "JSON_parse (sample_env End) (CHR ''{'' # ''\"industry\":\"Tech\"'' @ [CHR ''}'']) =
      Some (JObj [(''industry'', JStr ''Tech'')])"
    by (simp add: sample_env_def sample_parse_def retail_text_def)
  have r0: "enrichCompany (sample_env End) 0 ''Acme'' = Inr (JObj [(''industry'', JStr ''Tech'')])"
    using C4_extraction [OF m0 c b] t0 p0 by (metis option.simps(5))
  have m2: "messages_create (sample_env End) 2 (prompt ''Acme'') =
      Some (text_message ''Sorry, I cannot research that.'')"
    by (simp add: sample_env_def sample_create_def)
  have t2: "''Sorry, I cannot research that.'' \<noteq> pre @ CHR ''{'' # mid @ CHR ''}'' # post"
    for pre mid post
  proof
    assume "''Sorry, I cannot research that.'' = pre @ CHR ''{'' # mid @ CHR ''}'' # post"
    then have "CHR ''{'' \<in> set ''Sorry, I cannot research that.''"
      by (simp only: set_append list.set) simp
    then show False
      by simp
  qed
  have r2: "enrichCompany (sample_env End) 2 ''Acme'' = Inl NoJsonFound"
    using C4_extraction [OF m2 c b] t2 by blast
  have m5: "messages_create (sample_env End) 5 (prompt ''Acme'') =
      Some (text_message ''Result: {industry: Tech}'')"
    by (simp add: sample_env_def sample_create_def)
  have t5: "''Result: {industry: Tech}'' = ''Result: '' @ CHR ''{'' # ''industry: Tech'' @ CHR ''}'' # [] \<and>
      CHR ''{'' \<notin> set ''Result: '' \<and> CHR ''}'' \<notin> set []"
    by simp
  have p5: "JSON_parse (sample_env End) (CHR ''{'' # ''industry: Tech'' @ [CHR ''}'']) = None"
    by (simp add: sample_env_def sample_parse_def retail_text_def)
  have r5: "enrichCompany (sample_env End) 5 ''Acme'' = Inl MalformedJson"
    using C4_extraction [OF m5 c b] t5 p5 by (metis option.simps(4))
  show ?thesis
    using r0 r2 r5 by simp
qed

subsection \<open>The timestamp\<close>

text \<open>
  The month and the day that \<open>civil_from_days\<close> computes are in range, a padded number
  consists of digits, and so every string \<open>toISOString\<close> returns is an ISO-8601
  timestamp. Some dates of the calendar are computed as a check.
\<close>

lemma div_bounds:
  fixes x c :: int
  assumes "0 < c"
  shows "c * (x div c) \<le> x" and "x < c * (x div c) + c"
proof -
  have "x = c * (x div c) + x mod c"
    by simp
  moreover have "0 \<le> x mod c" and "x mod c < c"
    using assms by simp_all
  ultimately show "c * (x div c) \<le> x" and "x < c * (x div c) + c"
    by linarith+
qed

lemma year_day_bounds:
  assumes "year_day doe = (yoe, doy)"
  shows "0 \<le> doy \<and> doy \<le> 365"
proof -
  define r2 where "r2 = (doe - 36524 * min (doe div 36524) 3) mod 1461"
  define k where "k = r2 div 365"
  have "0 \<le> r2" and "r2 \<le> 1460"
    by (simp_all add: r2_def)
  moreover have "365 * k \<le> r2" and "r2 < 365 * k + 365"
    unfolding k_def by (rule div_bounds, simp)+
  moreover from assms have "doy = r2 - 365 * min k 3"
    unfolding year_day_def Let_def r2_def k_def by simp
  ultimately show ?thesis
    unfolding min_def by auto
qed

lemma month_day_bounds:
  assumes "month_day doy = (m, d)" and "0 \<le> doy" and "doy \<le> 365"
  shows "1 \<le> m \<and> m \<le> 12 \<and> 1 \<le> d \<and> d \<le> 31"
proof -
  define mp where "mp = (5 * doy + 2) div 153"
  define e where "e = (153 * mp + 2) div 5"
  have m: "153 * mp \<le> 5 * doy + 2" "5 * doy + 2 < 153 * mp + 153"
    unfolding mp_def by (rule div_bounds, simp)+
  have e: "5 * e \<le> 153 * mp + 2" "153 * mp + 2 < 5 * e + 5"
    unfolding e_def by (rule div_bounds, simp)+
  from assms(1) have "m = (if mp < 10 then mp + 3 else mp - 9)" and "d = doy - e + 1"
    unfolding month_day_def Let_def mp_def e_def by simp_all
  with assms(2,3) m e show ?thesis
    by auto
qed

lemma civil_from_days_bounds:
  assumes "civil_from_days days = (y, m, d)"
  shows "1 \<le> m \<and> m \<le> 12 \<and> 1 \<le> d \<and> d \<le> 31"
proof -
  obtain yoe doy where yd: "year_day ((days + 719468) mod 146097) = (yoe, doy)"
    by (cases "year_day ((days + 719468) mod 146097)")
  obtain m' d' where md: "month_day doy = (m', d')"
    by (cases "month_day doy")
  from assms have "m = m'" and "d = d'"
    by (simp_all add: civil_from_days_def Let_def yd md)
  with month_day_bounds [OF md] year_day_bounds [OF yd] show ?thesis
    by simp
qed

lemma pad_0: "pad 0 n = []"
  by (simp add: pad.simps)

lemma pad_Suc: "pad (Suc w) n = pad w (n div 10) @ [digit_char (n mod 10)]"
  by (simp add: pad.simps [of "Suc w"])

lemma pad_2: "pad 2 n = [digit_char (n div 10 mod 10), digit_char (n mod 10)]"
  by (simp add: eval_nat_numeral pad_Suc pad_0)

lemma pad_3:
  "pad 3 n = [digit_char (n div 10 div 10 mod 10), digit_char (n div 10 mod 10),
     digit_char (n mod 10)]"
  by (simp add: eval_nat_numeral pad_Suc pad_0 del: div_mult2_eq' zdiv_zmult2_eq)

lemma length_pad: "length (pad w n) = w"
  by (induction w arbitrary: n) (simp_all add: pad_0 pad_Suc)

lemma digit_cases:
  fixes x :: int
  shows "x mod 10 \<in> {0, 1, 2, 3, 4, 5, 6, 7, 8, 9}"
proof -
  have "0 \<le> x mod 10" and "x mod 10 < 10"
    by simp_all
  then show ?thesis
    by (simp only: insert_iff empty_iff) arith
qed

lemma is_digit_digit_char: "is_digit (digit_char (x mod 10))"
  using digit_cases [of x] by (auto simp: is_digit_def digit_char_def)

lemma digit_value_digit_char: "digit_value (digit_char (x mod 10)) = nat (x mod 10)"
  using digit_cases [of x] by (auto simp: digit_value_def digit_char_def)

lemma list_all_digit_pad: "list_all is_digit (pad w n)"
  by (induction w arbitrary: n) (simp_all add: pad_0 pad_Suc is_digit_digit_char)

lemma two_digits_pad:
  assumes "int lo \<le> n" and "n \<le> int hi" and "hi < 100"
  shows "two_digits (digit_char (n div 10 mod 10)) (digit_char (n mod 10)) lo hi"
proof -
  from assms have n: "0 \<le> n" "n < 100"
    by simp_all
  then have "n div 10 mod 10 = n div 10"
    by simp
  moreover have "10 * nat (n div 10) + nat (n mod 10) = nat n"
    using n by (simp add: nat_div_distrib nat_mod_distrib)
  ultimately have v: "10 * nat (n div 10 mod 10) + nat (n mod 10) = nat n"
    by simp
  have "lo \<le> nat n" and "nat n \<le> hi"
    using assms by simp_all
  then show ?thesis
    unfolding two_digits_def digit_value_digit_char v
    by (simp only: is_digit_digit_char simp_thms)
qed

lemma iso_year_year_text: "iso_year (year_text y)"
proof (cases "0 \<le> y \<and> y \<le> 9999")
  case True
  obtain a b c d where "pad 4 y = [a, b, c, d]"
    using length_pad [of 4 y] by (auto simp: eval_nat_numeral length_Suc_conv)
  then show ?thesis
    using True list_all_digit_pad [of 4 y] by (simp add: iso_year_def year_text_def)
next
  case False
  obtain a b c d e f where "pad 6 \<bar>y\<bar> = [a, b, c, d, e, f]"
    using length_pad [of 6 "\<bar>y\<bar>"] by (auto simp: eval_nat_numeral length_Suc_conv)
  then show ?thesis
    using False list_all_digit_pad [of 6 "\<bar>y\<bar>"] by (simp add: iso_year_def year_text_def)
qed

lemma iso_date_time_fields:
  assumes "1 \<le> m" "m \<le> 12" "1 \<le> d" "d \<le> 31" "0 \<le> h" "h \<le> 23"
    "0 \<le> n" "n \<le> 59" "0 \<le> s" "s \<le> 59"
  shows "iso_date_time (''-'' @ pad 2 m @ ''-'' @ pad 2 d @ ''T'' @ pad 2 h @ '':'' @
           pad 2 n @ '':'' @ pad 2 s @ ''.'' @ pad 3 f @ ''Z'')"
proof -
  have "two_digits (digit_char (m div 10 mod 10)) (digit_char (m mod 10)) 1 12"
    by (rule two_digits_pad) (use assms in simp_all)
  moreover have "two_digits (digit_char (d div 10 mod 10)) (digit_char (d mod 10)) 1 31"
    by (rule two_digits_pad) (use assms in simp_all)
  moreover have "two_digits (digit_char (h div 10 mod 10)) (digit_char (h mod 10)) 0 23"
    by (rule two_digits_pad) (use assms in simp_all)
  moreover have "two_digits (digit_char (n div 10 mod 10)) (digit_char (n mod 10)) 0 59"
    by (rule two_digits_pad) (use assms in simp_all)
  moreover have "two_digits (digit_char (s div 10 mod 10)) (digit_char (s mod 10)) 0 59"
    by (rule two_digits_pad) (use assms in simp_all)
  ultimately show ?thesis
    by (simp add: iso_date_time_def pad_2 pad_3 is_digit_digit_char)
qed

lemma iso8601_toISOString: "iso8601 (toISOString t)"
proof -
  obtain y m d where c: "civil_from_days (t div 86400000) = (y, m, d)"
    by (cases "civil_from_days (t div 86400000)")
  define ms where "ms = t mod 86400000"
  define r where "r = ''-'' @ pad 2 m @ ''-'' @ pad 2 d @ ''T'' @
         pad 2 (ms div 3600000) @ '':'' @ pad 2 (ms div 60000 mod 60) @ '':'' @
         pad 2 (ms div 1000 mod 60) @ ''.'' @ pad 3 (ms mod 1000) @ ''Z''"
  have ms: "0 \<le> ms" "ms < 86400000"
    by (simp_all add: ms_def)
  then have h: "0 \<le> ms div 3600000" "ms div 3600000 \<le> 23"
    by simp_all
  have s: "toISOString t = year_text y @ r"
    by (simp add: toISOString_def Let_def c ms_def r_def)
  have l: "length r = 20"
    by (simp add: r_def length_pad)
  have "iso_date_time r"
    unfolding r_def using civil_from_days_bounds [OF c] h
    by (intro iso_date_time_fields) simp_all
  then show ?thesis
    by (simp add: iso8601_def s l iso_year_year_text)
qed

lemma toISOString_samples:
  "toISOString 0 = ''1970-01-01T00:00:00.000Z''"
  "toISOString (- 1) = ''1969-12-31T23:59:59.999Z''"
  "toISOString 951782400000 = ''2000-02-29T00:00:00.000Z''"
  "toISOString 1709210096789 = ''2024-02-29T12:34:56.789Z''"
  "toISOString 4107542400000 = ''2100-03-01T00:00:00.000Z''"
  "toISOString 253402300799999 = ''9999-12-31T23:59:59.999Z''"
  "toISOString 253402300800000 = ''+010000-01-01T00:00:00.000Z''"
  "toISOString (- 62167219200000) = ''0000-01-01T00:00:00.000Z''"
  "toISOString (- 62167219200001) = ''-000001-12-31T23:59:59.999Z''"
  "toISOString 8640000000000000 = ''+275760-09-13T00:00:00.000Z''"
  "toISOString (- 8640000000000000) = ''-271821-04-20T00:00:00.000Z''"
  by code_simp+

lemma iso8601_samples:
  "iso8601 ''2024-02-29T12:34:56.789Z''"
  "\<not> iso8601 ''2024-13-01T00:00:00.000Z''"
  "\<not> iso8601 ''2024-02-29 12:34:56.789Z''"
  "\<not> iso8601 ''2024-02-29T12:34:56Z''"
  "\<not> iso8601 ''29 Feb 2024''"
  by code_simp+

subsection \<open>Result rows\<close>

lemma spread_eq: "spread m props = m ++ map_of (rev props)"
proof (induction props arbitrary: m)
  case Nil
  show ?case by (simp add: spread_def)
next
  case (Cons p ps)
  obtain k v where p: "p = (k, v)"
    by (cases p)
  have "spread m (p # ps) = spread (m(k \<mapsto> v)) ps"
    by (simp add: spread_def p)
  also have "\<dots> = m(k \<mapsto> v) ++ map_of (rev ps)"
    by (rule Cons.IH)
  also have "\<dots> = m ++ map_of (rev (p # ps))"
    by (simp add: p map_add_def fun_eq_iff split: option.splits)
  finally show ?case .
qed

lemma failure_row_apply:
  "failure_row c k =
     (if k = ''error'' then Some (JStr ''Enrichment failed'') else row_fields (originalRow c) k)"
  by (simp add: failure_row_def row_fields_def spread_eq [of _ "[_]"])

lemma success_row_apply:
  "success_row env i c e k =
     (if k = ''enriched_at'' then Some (JStr (toISOString (new_Date env i)))
      else if k = ''enrichment_cost'' then Some (JNum lit_0_15)
      else case json_fields e k of Some v \<Rightarrow> Some v | None \<Rightarrow> row_fields (originalRow c) k)"
  unfolding success_row_def row_fields_def json_fields_def calculateCost_def
  by (simp add: spread_eq [of _ "[_, _]"] spread_eq [of _ "spread_props e"] map_add_def)

lemma response_data_handler:
  assumes "req_file req = Some buffer" and "ended (csv env buffer)"
  shows "response_data (handler env req) =
           map (\<lambda>k. result_row env k (companies_of (stream_rows (csv env buffer)) ! k))
             [0..<min (length (companies_of (stream_rows (csv env buffer)))) 50]"
  using handler_enrich_ok [OF assms] by (simp add: response_data_def enrich_ok_def)

lemma map_of_rev_distinct: "distinct (map fst xs) \<Longrightarrow> map_of (rev xs) = map_of xs"
proof (induction xs)
  case Nil
  show ?case by simp
next
  case (Cons x xs)
  then have "map_of xs (fst x) = None"
    by (simp add: map_of_eq_None_iff)
  with Cons show ?case
    by (auto simp: map_add_def fun_eq_iff split: option.splits)
qed

lemma row_fields_distinct:
  assumes "distinct (map fst r)"
  shows "row_fields r k = map_option JStr (map_of r k)"
proof -
  have "map fst (row_props r) = map fst r"
    by (simp add: row_props_def case_prod_unfold)
  with assms have "map_of (rev (row_props r)) = map_of (row_props r)"
    by (simp add: map_of_rev_distinct)
  then show ?thesis
    by (simp add: row_fields_def spread_eq row_props_def map_of_map)
qed

lemma json_fields_object:
  assumes "distinct (map fst kvs)"
  shows "json_fields (JObj kvs) k = map_of kvs k"
  using map_of_rev_distinct [OF assms] by (simp add: json_fields_def spread_eq)

lemma originalRow_companies_of:
  assumes "i < length (companies_of rows)"
  shows "originalRow (companies_of rows ! i) = filter resolvable rows ! i"
  using assms by (simp add: companies_of_def)

lemma sample_file: "req_file sample_request = Some ''uploaded text''"
  by (simp add: sample_request_def)

lemma five_ended: "ended (csv (sample_env (stream_of five_rows)) ''uploaded text'')"
  by code_simp

lemma five_count:
  "min (length (companies_of (stream_rows (csv (sample_env (stream_of five_rows))
      ''uploaded text'')))) 50 = 5"
  by code_simp

lemma five_first:
  "enrichCompany (sample_env (stream_of five_rows)) 0
     (name (companies_of (stream_rows (csv (sample_env (stream_of five_rows))
        ''uploaded text'')) ! 0)) = Inr (JObj [(''industry'', JStr ''Tech'')])"
  by code_simp

lemma five_third:
  "enrichCompany (sample_env (stream_of five_rows)) 2
     (name (companies_of (stream_rows (csv (sample_env (stream_of five_rows))
        ''uploaded text'')) ! 2)) = Inl NoJsonFound"
  by code_simp

lemma five_fourth:
  "enrichCompany (sample_env (stream_of five_rows)) 3
     (name (companies_of (stream_rows (csv (sample_env (stream_of five_rows))
        ''uploaded text'')) ! 3)) =
     Inr (JObj [(''industry'', JStr ''Retail''), (''headquarters'', JStr ''Oslo, Norway''),
                (''founded_year'', JNull)])"
  by code_simp

lemma five_first_row:
  "originalRow (companies_of (stream_rows (csv (sample_env (stream_of five_rows))
      ''uploaded text'')) ! 0) = [(''company'', ''Acme''), (''industry'', ''unknown'')]"
  by code_simp

lemma five_third_row:
  "originalRow (companies_of (stream_rows (csv (sample_env (stream_of five_rows))
      ''uploaded text'')) ! 2) = [(''company'', ''Cyan''), (''industry'', ''unknown'')]"
  by code_simp

lemma five_fourth_row:
  "originalRow (companies_of (stream_rows (csv (sample_env (stream_of five_rows))
      ''uploaded text'')) ! 3) = [(''company'', ''Dune''), (''industry'', ''unknown'')]"
  by code_simp

text \<open>
  C5. When the enrichment of the company at position \<open>i\<close> of the batch fails, with
  whatever error, the entry at position \<open>i\<close> of \<^verbatim>\<open>data\<close> has under every column of the
  uploaded row the cell of that row, under \<^verbatim>\<open>error\<close> the string
  \<^verbatim>\<open>"Enrichment failed"\<close>, and nothing else. The batch still has one entry for each of
  its companies, the later ones included, each marked by the outcome of its own
  enrichment, and \<^verbatim>\<open>total_processed\<close> counts them all.
\<close>

theorem C5_failed_enrichment:
  assumes "req_file req = Some buffer" and "ended (csv env buffer)"
    and "cs = companies_of (stream_rows (csv env buffer))"
    and "i < min (length cs) 50"
    and "enrichCompany env i (name (cs ! i)) = Inl err"
    and "distinct (map fst (originalRow (cs ! i)))"
  shows "(response_data (handler env req) ! i) k =
           (if k = ''error'' then Some (JStr ''Enrichment failed'')
            else map_option JStr (map_of (originalRow (cs ! i)) k)) \<and>
         originalRow (cs ! i) = filter resolvable (stream_rows (csv env buffer)) ! i \<and>
         length (response_data (handler env req)) = min (length cs) 50 \<and>
         (\<exists>b. body (handler env req) = EnrichBody b \<and>
              total_processed b = of_nat (min (length cs) 50)) \<and>
         (\<forall>j < min (length cs) 50.
            case enrichCompany env j (name (cs ! j)) of
              Inl e \<Rightarrow>
                (response_data (handler env req) ! j) ''error'' = Some (JStr ''Enrichment failed'')
            | Inr v \<Rightarrow>
                (response_data (handler env req) ! j) ''enrichment_cost'' = Some (JNum lit_0_15))"
proof -
  have d: "response_data (handler env req) =
             map (\<lambda>k. result_row env k (cs ! k)) [0..<min (length cs) 50]"
    using response_data_handler [OF assms(1,2)] by (simp only: assms(3))
  have "response_data (handler env req) ! i = failure_row (cs ! i)"
    using assms(4) by (simp add: d result_row_def assms(5))
  then have "(response_data (handler env req) ! i) k =
               (if k = ''error'' then Some (JStr ''Enrichment failed'')
                else map_option JStr (map_of (originalRow (cs ! i)) k))"
    by (simp add: failure_row_apply row_fields_distinct [OF assms(6)])
  moreover have "originalRow (cs ! i) = filter resolvable (stream_rows (csv env buffer)) ! i"
    using assms(4) unfolding assms(3) by (intro originalRow_companies_of) simp
  moreover have "\<exists>b. body (handler env req) = EnrichBody b \<and>
                   total_processed b = of_nat (min (length cs) 50)"
    using handler_enrich_ok [OF assms(1,2)]
    by (simp add: enrich_ok_def js_length_def assms(3))
  moreover have "case enrichCompany env j (name (cs ! j)) of
              Inl e \<Rightarrow>
                (response_data (handler env req) ! j) ''error'' = Some (JStr ''Enrichment failed'')
            | Inr v \<Rightarrow>
                (response_data (handler env req) ! j) ''enrichment_cost'' = Some (JNum lit_0_15)"
    if "j < min (length cs) 50" for j
    using that
    by (simp add: d result_row_def failure_row_apply success_row_apply split: sum.splits)
  ultimately show ?thesis
    by (simp add: d)
qed

theorem C5_failed_enrichment_witness:
  "length (response_data (handler (sample_env (stream_of five_rows)) sample_request)) = 5 \<and>
   map (response_data (handler (sample_env (stream_of five_rows)) sample_request) ! 2)
     [''company'', ''industry'', ''error'', ''enrichment_cost'', ''enriched_at''] =
     [Some (JStr ''Cyan''), Some (JStr ''unknown''), Some (JStr ''Enrichment failed''),
      None, None] \<and>
   map (\<lambda>r. (r ''error'', r ''enrichment_cost''))
     (response_data (handler (sample_env (stream_of five_rows)) sample_request)) =
     [(None, Some (JNum lit_0_15)), (None, Some (JNum lit_0_15)),
      (Some (JStr ''Enrichment failed''), None),
      (None, Some (JNum lit_0_15)), (None, Some (JNum lit_0_15))] \<and>
   (\<exists>b. body (handler (sample_env (stream_of five_rows)) sample_request) = EnrichBody b \<and>
        total_processed b = 5)"
proof -
  let ?env = "sample_env (stream_of five_rows)"
  let ?cs = "companies_of (stream_rows (csv ?env ''uploaded text''))"
  have i: "2 < min (length ?cs) 50"
    unfolding five_count by simp
  have r: "distinct (map fst (originalRow (?cs ! 2)))"
    unfolding five_third_row by simp
  have m: "map (\<lambda>r. (r ''error'', r ''enrichment_cost''))
     (response_data (handler ?env sample_request)) =
     [(None, Some (JNum lit_0_15)), (None, Some (JNum lit_0_15)),
      (Some (JStr ''Enrichment failed''), None),
      (None, Some (JNum lit_0_15)), (None, Some (JNum lit_0_15))]"
    by code_simp
  note c = C5_failed_enrichment [OF sample_file five_ended refl i five_third r]
  have "map (response_data (handler ?env sample_request) ! 2)
     [''company'', ''industry'', ''error'', ''enrichment_cost'', ''enriched_at''] =
     [Some (JStr ''Cyan''), Some (JStr ''unknown''), Some (JStr ''Enrichment failed''),
      None, None]"
    using c [where k = "''company''", THEN conjunct1]
      c [where k = "''industry''", THEN conjunct1]
      c [where k = "''error''", THEN conjunct1]
      c [where k = "''enrichment_cost''", THEN conjunct1]
      c [where k = "''enriched_at''", THEN conjunct1]
    unfolding five_third_row by simp
  moreover have "length (response_data (handler ?env sample_request)) = 5 \<and>
    (\<exists>b. body (handler ?env sample_request) = EnrichBody b \<and> total_processed b = 5)"
    using c [where k = "''error''", THEN conjunct2, THEN conjunct2]
    unfolding five_count by simp
  ultimately show ?thesis
    using m by simp
qed

text \<open>
  C6, as amended. The value \<^verbatim>\<open>JSON.parse\<close> returns for a text that starts with
  \<^verbatim>\<open>{\<close> is an object. The entry of \<^verbatim>\<open>data\<close> for a company whose enrichment succeeded
  has, under every name, the value of the parsed object when the object has a property
  of that name and the cell of the uploaded row otherwise, except that
  \<^verbatim>\<open>enrichment_cost\<close> is the Number 0.15 and \<^verbatim>\<open>enriched_at\<close> is an ISO-8601
  timestamp, the \<^verbatim>\<open>toISOString\<close> of the Date created in that iteration. The entry for
  a company whose enrichment failed has the cells of the uploaded row and
  \<^verbatim>\<open>error: "Enrichment failed"\<close>, and nothing else: no \<^verbatim>\<open>enrichment_cost\<close> and no
  \<^verbatim>\<open>enriched_at\<close> is added to it.
\<close>

theorem C6_result_rows:
  assumes "req_file req = Some buffer" and "ended (csv env buffer)"
    and "cs = companies_of (stream_rows (csv env buffer))"
    and "i < min (length cs) 50"
    and "distinct (map fst (originalRow (cs ! i)))"
  shows "(enrichCompany env i (name (cs ! i)) = Inr (JObj kvs) \<and> distinct (map fst kvs) \<longrightarrow>
            (response_data (handler env req) ! i) k =
              (if k = ''enriched_at'' then Some (JStr (toISOString (new_Date env i)))
               else if k = ''enrichment_cost'' then Some (JNum lit_0_15)
               else case map_of kvs k of
                      Some v \<Rightarrow> Some v
                    | None \<Rightarrow> map_option JStr (map_of (originalRow (cs ! i)) k)) \<and>
            (\<exists>s. (response_data (handler env req) ! i) ''enriched_at'' = Some (JStr s) \<and>
                 iso8601 s)) \<and>
         (enrichCompany env i (name (cs ! i)) = Inl err \<longrightarrow>
            (response_data (handler env req) ! i) k =
              (if k = ''error'' then Some (JStr ''Enrichment failed'')
               else map_option JStr (map_of (originalRow (cs ! i)) k)))"
proof -
  have r: "response_data (handler env req) ! i = result_row env i (cs ! i)"
    using response_data_handler [OF assms(1,2)] assms(4) by (simp add: assms(3))
  have "(response_data (handler env req) ! i) k =
          (if k = ''enriched_at'' then Some (JStr (toISOString (new_Date env i)))
           else if k = ''enrichment_cost'' then Some (JNum lit_0_15)
           else case map_of kvs k of
                  Some v \<Rightarrow> Some v
                | None \<Rightarrow> map_option JStr (map_of (originalRow (cs ! i)) k))"
    and "\<exists>s. (response_data (handler env req) ! i) ''enriched_at'' = Some (JStr s) \<and> iso8601 s"
    if "enrichCompany env i (name (cs ! i)) = Inr (JObj kvs)" and "distinct (map fst kvs)"
    using that
    by (simp_all add: r result_row_def success_row_apply json_fields_object
        row_fields_distinct [OF assms(5)] iso8601_toISOString split: option.splits)
  moreover have "(response_data (handler env req) ! i) k =
          (if k = ''error'' then Some (JStr ''Enrichment failed'')
           else map_option JStr (map_of (originalRow (cs ! i)) k))"
    if "enrichCompany env i (name (cs ! i)) = Inl err"
    using that
    by (simp add: r result_row_def failure_row_apply row_fields_distinct [OF assms(5)])
  ultimately show ?thesis
    by blast
qed

theorem C6_result_rows_witness:
  "map (response_data (handler (sample_env (stream_of five_rows)) sample_request) ! 0)
     [''company'', ''industry'', ''error'', ''enrichment_cost'', ''enriched_at''] =
     [Some (JStr ''Acme''), Some (JStr ''Tech''), None,
      Some (JNum (5404319552844595 / 2 ^ 55)), Some (JStr ''2025-01-01T00:00:00.000Z'')] \<and>
   iso8601 ''2025-01-01T00:00:00.000Z'' \<and>
   map (response_data (handler (sample_env (stream_of five_rows)) sample_request) ! 2)
     [''company'', ''industry'', ''error'', ''enrichment_cost'', ''enriched_at''] =
     [Some (JStr ''Cyan''), Some (JStr ''unknown''), Some (JStr ''Enrichment failed''),
      None, None]"
proof -
  let ?env = "sample_env (stream_of five_rows)"
  let ?cs = "companies_of (stream_rows (csv ?env ''uploaded text''))"
  have i0: "0 < min (length ?cs) 50" and i2: "2 < min (length ?cs) 50"
    unfolding five_count by simp_all
  have r0: "distinct (map fst (originalRow (?cs ! 0)))"
    unfolding five_first_row by simp
  have r2: "distinct (map fst (originalRow (?cs ! 2)))"
    unfolding five_third_row by simp
  have t: "toISOString (new_Date ?env 0) = ''2025-01-01T00:00:00.000Z''"
    by code_simp
  have k: "distinct (map fst [(''industry'', JStr ''Tech'')])"
    by simp
  note a = C6_result_rows [OF sample_file five_ended refl i0 r0,
      where kvs = "[(''industry'', JStr ''Tech'')]"]
  note b = C6_result_rows [OF sample_file five_ended refl i2 r2, where err = NoJsonFound]
  have "iso8601 ''2025-01-01T00:00:00.000Z''"
    using a [where k = "''enriched_at''"] five_first k unfolding t by auto
  then show ?thesis
    using a [where k = "''company''"] a [where k = "''industry''"] a [where k = "''error''"]
      a [where k = "''enrichment_cost''"] a [where k = "''enriched_at''"]
      b [where k = "''company''"] b [where k = "''industry''"] b [where k = "''error''"]
      b [where k = "''enrichment_cost''"] b [where k = "''enriched_at''"]
      five_first five_third k
    unfolding t five_first_row five_third_row lit_0_15_value by simp
qed

theorem C6_counterexample:
  "status (handler (sample_env (stream_of five_rows)) sample_request) = 200 \<and>
   length (response_data (handler (sample_env (stream_of five_rows)) sample_request)) = 5 \<and>
   (response_data (handler (sample_env (stream_of five_rows)) sample_request) ! 2)
      ''error'' = Some (JStr ''Enrichment failed'') \<and>
   (response_data (handler (sample_env (stream_of five_rows)) sample_request) ! 2)
      ''enrichment_cost'' = None \<and>
   (response_data (handler (sample_env (stream_of five_rows)) sample_request) ! 2)
      ''enriched_at'' = None"
  by code_simp

text \<open>
  C10. When the enrichment of a company succeeds and the parsed object has a
  property \<open>k\<close> with the value \<open>v\<close>, \<open>k\<close> being other than \<^verbatim>\<open>enrichment_cost\<close> and
  \<^verbatim>\<open>enriched_at\<close> (so, any of the eleven fields of EnrichedData), the entry of
  \<^verbatim>\<open>data\<close> holds \<open>v\<close> under \<open>k\<close>; a different cell that the uploaded row holds in a
  column of that name is not in the entry.
\<close>

theorem C10_enriched_overrides:
  assumes "req_file req = Some buffer" and "ended (csv env buffer)"
    and "cs = companies_of (stream_rows (csv env buffer))"
    and "i < min (length cs) 50"
    and "enrichCompany env i (name (cs ! i)) = Inr (JObj kvs)"
    and "distinct (map fst kvs)"
    and "(k, v) \<in> set kvs"
    and "k \<noteq> ''enrichment_cost''" and "k \<noteq> ''enriched_at''"
  shows "(response_data (handler env req) ! i) k = Some v \<and>
         (\<forall>w. map_of (originalRow (cs ! i)) k = Some w \<and> JStr w \<noteq> v \<longrightarrow>
              (response_data (handler env req) ! i) k \<noteq> Some (JStr w))"
proof -
  have "response_data (handler env req) ! i = result_row env i (cs ! i)"
    using response_data_handler [OF assms(1,2)] assms(4) by (simp add: assms(3))
  moreover have "map_of kvs k = Some v"
    using assms(6,7) by (rule map_of_is_SomeI)
  ultimately have "(response_data (handler env req) ! i) k = Some v"
    using assms(5,8,9)
    by (simp add: result_row_def success_row_apply json_fields_object [OF assms(6)])
  then show ?thesis
    by auto
qed

theorem C10_enriched_overrides_witness:
  "map_of [(''company'', ''Acme''), (''industry'', ''unknown'')] ''industry'' = Some ''unknown'' \<and>
   (response_data (handler (sample_env (stream_of five_rows)) sample_request) ! 0)
      ''industry'' = Some (JStr ''Tech'') \<and>
   (response_data (handler (sample_env (stream_of five_rows)) sample_request) ! 3)
      ''industry'' = Some (JStr ''Retail'') \<and>
   (response_data (handler (sample_env (stream_of five_rows)) sample_request) ! 3)
      ''headquarters'' = Some (JStr ''Oslo, Norway'') \<and>
   (response_data (handler (sample_env (stream_of five_rows)) sample_request) ! 3)
      ''founded_year'' = Some JNull"
proof -
  let ?env = "sample_env (stream_of five_rows)"
  let ?cs = "companies_of (stream_rows (csv ?env ''uploaded text''))"
  let ?retail = "[(''industry'', JStr ''Retail''), (''headquarters'', JStr ''Oslo, Norway''),
                  (''founded_year'', JNull)]"
  have i0: "0 < min (length ?cs) 50" and i3: "3 < min (length ?cs) 50"
    unfolding five_count by simp_all
  have d0: "distinct (map fst [(''industry'', JStr ''Tech'')])"
    and d3: "distinct (map fst ?retail)"
    by simp_all
  note a = C10_enriched_overrides [OF sample_file five_ended refl i0 five_first d0,
      where k = "''industry''" and v = "JStr ''Tech''"]
  note b = C10_enriched_overrides [OF sample_file five_ended refl i3 five_fourth d3]
  show ?thesis
    using a b [where k = "''industry''" and v = "JStr ''Retail''"]
      b [where k = "''headquarters''" and v = "JStr ''Oslo, Norway''"]
      b [where k = "''founded_year''" and v = JNull]
    by simp
qed

end
